theory Spec2Isabelle
  imports Complex_Main "HOL-Library.Word" "HOL-Library.Char_ord" "HOL-Library.List_Lexorder"
begin

unbundle bit_operations_syntax

chapter \<open>geo-verify: geohash index, one-time codes, fraud scoring and the replay guard\<close>

text \<open>
  Numbers of the TypeScript source are IEEE doubles. Coordinates, accuracies and
  distances are modelled as rationals (every finite double is one) with exact
  arithmetic, and a decimal literal such as \<open>0.8\<close> as the rational it denotes;
  counters, clock readings (epoch milliseconds) and scores are integers. NaN and the
  infinities are outside the model. Strings are lists of 8-bit characters.

  Names are the source's. Where a name of the source is taken in HOL or used twice, it
  carries a prefix or suffix: \<open>flag_type\<close> and \<open>flag_data\<close> for the \<open>type\<close> and
  \<open>data\<close> of a flag, \<open>qr_error\<close> for the \<open>error\<close> of a token check,
  \<open>campaign_id\<close> for the \<open>id\<close> of a campaign, \<open>coord_lat\<close> and \<open>coord_lng\<close> for
  its coordinates, \<open>sorted_t\<close>, \<open>prev_t\<close>, \<open>curr_t\<close> for local variables.
\<close>

section \<open>Geospatial index: \<open>lib/geohash.ts\<close>\<close>

definition BASE32 :: string where
  "BASE32 = ''0123456789bcdefghjkmnpqrstuvwxyz''"

subsection \<open>encodeGeohash\<close>

text \<open>The local variables of \<open>encodeGeohash\<close>, as the loop updates them.\<close>

record enc_state =
  e_minLat :: rat
  e_maxLat :: rat
  e_minLng :: rat
  e_maxLng :: rat
  e_hash :: string
  e_bit :: nat
  e_ch :: nat
  e_isLng :: bool

text \<open>
  \<open>BASE32[ch]\<close>: indexing a JavaScript string out of range gives \<open>undefined\<close>,
  which \<open>+=\<close> appends as the text \<open>undefined\<close>.
\<close>

definition charAt :: "string \<Rightarrow> nat \<Rightarrow> string" where
  "charAt s i = (if i < length s then [s ! i] else ''undefined'')"

text \<open>
  One pass through the body of the \<open>while\<close> loop. The shift \<open>1 << (4 - bit)\<close> is
  written with the truncating subtraction of \<open>nat\<close>; \<open>bit\<close> stays within 0..4 on
  every run from the initial state (lemma \<open>encode_inv_body\<close>), where the two agree.
\<close>

definition encode_body :: "rat \<Rightarrow> rat \<Rightarrow> enc_state \<Rightarrow> enc_state" where
  "encode_body lat lng s =
    (let s1 =
       (if e_isLng s then
          (let mid = (e_minLng s + e_maxLng s) / 2 in
           if lng \<ge> mid
           then s\<lparr>e_ch := e_ch s OR push_bit (4 - e_bit s) 1, e_minLng := mid\<rparr>
           else s\<lparr>e_maxLng := mid\<rparr>)
        else
          (let mid = (e_minLat s + e_maxLat s) / 2 in
           if lat \<ge> mid
           then s\<lparr>e_ch := e_ch s OR push_bit (4 - e_bit s) 1, e_minLat := mid\<rparr>
           else s\<lparr>e_maxLat := mid\<rparr>));
         s2 = s1\<lparr>e_isLng := \<not> e_isLng s1, e_bit := e_bit s1 + 1\<rparr>
     in if e_bit s2 = 5
        then s2\<lparr>e_hash := e_hash s2 @ charAt BASE32 (e_ch s2), e_bit := 0, e_ch := 0\<rparr>
        else s2)"

text \<open>
  The loop \<open>while (hash.length < precision)\<close>. From a state with \<open>bit > 4\<close> it would
  never append a character, so the loop is a partial function: \<open>None\<close> is a run that
  does not return.
\<close>

partial_function (option) encode_loop :: "rat \<Rightarrow> rat \<Rightarrow> nat \<Rightarrow> enc_state \<Rightarrow> string option" where
  "encode_loop lat lng precision s =
    (if length (e_hash s) < precision
     then encode_loop lat lng precision (encode_body lat lng s)
     else Some (e_hash s))"

declare encode_loop.simps [code]

definition enc_init :: enc_state where
  "enc_init = \<lparr>e_minLat = -90, e_maxLat = 90, e_minLng = -180, e_maxLng = 180,
               e_hash = [], e_bit = 0, e_ch = 0, e_isLng = True\<rparr>"

definition encodeGeohash :: "rat \<Rightarrow> rat \<Rightarrow> nat \<Rightarrow> string option" where
  "encodeGeohash lat lng precision = encode_loop lat lng precision enc_init"

subsection \<open>decodeGeohash\<close>

datatype geo_error = InvalidGeohashCharacter char

record dec_state =
  d_minLat :: rat
  d_maxLat :: rat
  d_minLng :: rat
  d_maxLng :: rat
  d_isLng :: bool

record decoded =
  lat :: rat
  lng :: rat
  latError :: rat
  lngError :: rat

text \<open>
  \<open>String.prototype.toLowerCase\<close> on 8-bit characters: the letters A..Z move to a..z,
  every other character stays.
\<close>

definition lower_char :: "char \<Rightarrow> char" where
  "lower_char c =
    (let n = (of_char c :: nat)
     in if 65 \<le> n \<and> n \<le> 90 then char_of (n + 32) else c)"

definition toLowerCase :: "string \<Rightarrow> string" where
  "toLowerCase s = map lower_char s"

text \<open>\<open>indexOf\<close>: the first position of the character, \<open>None\<close> for \<open>-1\<close>.\<close>

fun indexOf :: "string \<Rightarrow> char \<Rightarrow> nat option" where
  "indexOf [] c = None"
| "indexOf (x # xs) c = (if x = c then Some 0 else map_option Suc (indexOf xs c))"

text \<open>The body of the inner loop, for one \<open>bit\<close> of the character's index.\<close>

definition decode_bit :: "nat \<Rightarrow> nat \<Rightarrow> dec_state \<Rightarrow> dec_state" where
  "decode_bit idx b s =
    (let bitValue = drop_bit b idx AND 1;
         s1 =
           (if d_isLng s then
              (let mid = (d_minLng s + d_maxLng s) / 2 in
               if bitValue = 1 then s\<lparr>d_minLng := mid\<rparr> else s\<lparr>d_maxLng := mid\<rparr>)
            else
              (let mid = (d_minLat s + d_maxLat s) / 2 in
               if bitValue = 1 then s\<lparr>d_minLat := mid\<rparr> else s\<lparr>d_maxLat := mid\<rparr>))
     in s1\<lparr>d_isLng := \<not> d_isLng s1\<rparr>)"

text \<open>
  \<open>for (let bit = 4; bit >= 0; bit--)\<close>: \<open>decode_bits idx n\<close> runs the body for
  \<open>bit = n - 1\<close> down to 0; the loop is \<open>decode_bits idx 5\<close>.
\<close>

fun decode_bits :: "nat \<Rightarrow> nat \<Rightarrow> dec_state \<Rightarrow> dec_state" where
  "decode_bits idx 0 s = s"
| "decode_bits idx (Suc b) s = decode_bits idx b (decode_bit idx b s)"

text \<open>The outer loop over the characters; the \<open>throw\<close> is the value \<open>Inl\<close>.\<close>

fun decode_loop :: "string \<Rightarrow> dec_state \<Rightarrow> geo_error + dec_state" where
  "decode_loop [] s = Inr s"
| "decode_loop (c # cs) s =
    (case indexOf BASE32 c of
       None \<Rightarrow> Inl (InvalidGeohashCharacter c)
     | Some idx \<Rightarrow> decode_loop cs (decode_bits idx 5 s))"

definition dec_init :: dec_state where
  "dec_init = \<lparr>d_minLat = -90, d_maxLat = 90, d_minLng = -180, d_maxLng = 180, d_isLng = True\<rparr>"

definition decode_result :: "dec_state \<Rightarrow> decoded" where
  "decode_result s =
    \<lparr>lat = (d_minLat s + d_maxLat s) / 2,
     lng = (d_minLng s + d_maxLng s) / 2,
     latError = (d_maxLat s - d_minLat s) / 2,
     lngError = (d_maxLng s - d_minLng s) / 2\<rparr>"

definition decodeGeohash :: "string \<Rightarrow> geo_error + decoded" where
  "decodeGeohash hash =
    (case decode_loop (toLowerCase hash) dec_init of
       Inl e \<Rightarrow> Inl e
     | Inr s \<Rightarrow> Inr (decode_result s))"

subsection \<open>Auxiliary notions for the geohash proofs\<close>

text \<open>
  The encoder's view of the cell, as a decoder state; the decoder run on the first \<open>k\<close>
  bits of a character only; one halving step with the bit given; the bit the encoder
  chooses and the character code it builds; and the loop invariant of \<open>encodeGeohash\<close>.
\<close>

definition enc_box :: "enc_state \<Rightarrow> dec_state" where
  "enc_box s = \<lparr>d_minLat = e_minLat s, d_maxLat = e_maxLat s, d_minLng = e_minLng s,
               d_maxLng = e_maxLng s, d_isLng = e_isLng s\<rparr>"

fun decode_top :: "nat \<Rightarrow> nat \<Rightarrow> dec_state \<Rightarrow> dec_state" where
  "decode_top idx 0 d = d"
| "decode_top idx (Suc k) d = decode_bit idx (4 - k) (decode_top idx k d)"

definition encode_inv :: "rat \<Rightarrow> rat \<Rightarrow> enc_state \<Rightarrow> bool" where
  "encode_inv la lo s \<longleftrightarrow>
     e_bit s < 5 \<and> e_ch s < 32 \<and> (\<forall>j. j < 5 - e_bit s \<longrightarrow> \<not> bit (e_ch s) j) \<and>
     set (e_hash s) \<subseteq> set BASE32 \<and>
     (\<exists>d. decode_loop (e_hash s) dec_init = Inr d \<and> enc_box s = decode_top (e_ch s) (e_bit s) d) \<and>
     e_minLat s \<le> la \<and> la \<le> e_maxLat s \<and> e_minLng s \<le> lo \<and> lo \<le> e_maxLng s"

definition narrow :: "bool \<Rightarrow> dec_state \<Rightarrow> dec_state" where
  "narrow v d =
    (if d_isLng d
     then (if v then d\<lparr>d_minLng := (d_minLng d + d_maxLng d) / 2, d_isLng := False\<rparr>
           else d\<lparr>d_maxLng := (d_minLng d + d_maxLng d) / 2, d_isLng := False\<rparr>)
     else (if v then d\<lparr>d_minLat := (d_minLat d + d_maxLat d) / 2, d_isLng := True\<rparr>
           else d\<lparr>d_maxLat := (d_minLat d + d_maxLat d) / 2, d_isLng := True\<rparr>))"

definition enc_decision :: "rat \<Rightarrow> rat \<Rightarrow> enc_state \<Rightarrow> bool" where
  "enc_decision la lo s =
    (if e_isLng s then lo \<ge> (e_minLng s + e_maxLng s) / 2
     else la \<ge> (e_minLat s + e_maxLat s) / 2)"

definition enc_next_ch :: "rat \<Rightarrow> rat \<Rightarrow> enc_state \<Rightarrow> nat" where
  "enc_next_ch la lo s =
    (if enc_decision la lo s then e_ch s OR push_bit (4 - e_bit s) 1 else e_ch s)"

text \<open>
  Numbers a double holds exactly: an integer below \<open>2 ^ 53\<close> in size over a power of
  two. The bounds the two loops compute lie on a grid of multiples of \<open>45 / 2 ^ h\<close>,
  where \<open>h\<close> counts the halvings; \<open>cell_inv n\<close> is that invariant after \<open>n\<close> bits,
  and \<open>cell_exact\<close> says that every number the code computes from a cell (its bounds,
  their sums and differences, the halves of these) is exact in a double.
\<close>

definition grid :: "nat \<Rightarrow> rat \<Rightarrow> bool" where
  "grid h x \<longleftrightarrow> (\<exists>k::int. x = of_int k * 45 / 2 ^ h)"

definition double_exact :: "rat \<Rightarrow> bool" where
  "double_exact x \<longleftrightarrow> (\<exists>m::int. \<exists>e::nat. \<bar>m\<bar> < 2 ^ 53 \<and> e \<le> 1074 \<and> x = of_int m / 2 ^ e)"

definition cell_inv :: "nat \<Rightarrow> dec_state \<Rightarrow> bool" where
  "cell_inv n d \<longleftrightarrow>
     d_isLng d = even n \<and>
     grid ((n + 1) div 2) (d_minLng d) \<and> grid ((n + 1) div 2) (d_maxLng d) \<and>
     grid (n div 2) (d_minLat d) \<and> grid (n div 2) (d_maxLat d) \<and>
     - 180 \<le> d_minLng d \<and> d_minLng d \<le> d_maxLng d \<and> d_maxLng d \<le> 180 \<and>
     - 90 \<le> d_minLat d \<and> d_minLat d \<le> d_maxLat d \<and> d_maxLat d \<le> 90"

definition cell_exact :: "dec_state \<Rightarrow> bool" where
  "cell_exact d \<longleftrightarrow>
     double_exact (d_minLng d) \<and> double_exact (d_maxLng d) \<and>
     double_exact (d_minLat d) \<and> double_exact (d_maxLat d) \<and>
     double_exact (d_minLng d + d_maxLng d) \<and> double_exact ((d_minLng d + d_maxLng d) / 2) \<and>
     double_exact (d_minLat d + d_maxLat d) \<and> double_exact ((d_minLat d + d_maxLat d) / 2) \<and>
     double_exact (d_maxLng d - d_minLng d) \<and> double_exact ((d_maxLng d - d_minLng d) / 2) \<and>
     double_exact (d_maxLat d - d_minLat d) \<and> double_exact ((d_maxLat d - d_minLat d) / 2)"

section \<open>What the code takes from its platform\<close>

text \<open>
  The verification module calls into Node and the JavaScript runtime: \<open>Math\<close>,
  \<open>crypto.createHmac\<close>, \<open>JSON\<close>, \<open>Buffer\<close>, \<open>Date\<close>, \<open>process.env\<close> and the
  conversions of values to strings and numbers. None of it is code of this repository.
  It is gathered in one record of functions that every modelled function receives;
  the theorems hold for every such record.
\<close>

datatype json =
    JNull
  | JBool bool
  | JNum rat
  | JStr string
  | JArr "json list"
  | JObj "(string \<times> json) list"

datatype js_error = SyntaxError | TypeError

record runtime =
  Math_sin :: "rat \<Rightarrow> rat"
  Math_cos :: "rat \<Rightarrow> rat"
  Math_sqrt :: "rat \<Rightarrow> rat"
  Math_atan2 :: "rat \<Rightarrow> rat \<Rightarrow> rat"
  Math_PI :: rat
  Number_toString :: "rat \<Rightarrow> string"
  hmac_sha256 :: "string \<Rightarrow> string \<Rightarrow> 256 word"
  env_TOTP_SECRET :: "string option"
  Date_getDay :: "int \<Rightarrow> int"
  Date_toLocaleTimeString :: "int \<Rightarrow> string \<Rightarrow> string"
  base64_JSON_stringify :: "json \<Rightarrow> string"
  JSON_parse_base64 :: "string \<Rightarrow> json option"
  js_ToString :: "json option \<Rightarrow> js_error + string"
  js_ToNumber :: "json option \<Rightarrow> js_error + rat option"

section \<open>Numbers as text\<close>

text \<open>
  \<open>Number.prototype.toString\<close> on an integer: its decimal digits, with a minus sign
  when negative.
\<close>

definition digit_char :: "int \<Rightarrow> char" where
  "digit_char d = ''0123456789abcdef'' ! nat d"

function toString_digits :: "int \<Rightarrow> string" where
  "toString_digits n =
    (if n < 10 then [digit_char n] else toString_digits (n div 10) @ [digit_char (n mod 10)])"
  by pat_completeness auto
termination
  by (relation "measure nat") auto

declare toString_digits.simps [simp del]

definition toString_int :: "int \<Rightarrow> string" where
  "toString_int i = (if i < 0 then CHR ''-'' # toString_digits (- i) else toString_digits i)"

definition Math_round :: "rat \<Rightarrow> int" where
  "Math_round x = \<lfloor>x + 1 / 2\<rfloor>"

definition padStart :: "nat \<Rightarrow> char \<Rightarrow> string \<Rightarrow> string" where
  "padStart n c s = replicate (n - length s) c @ s"

definition slice_str :: "nat \<Rightarrow> nat \<Rightarrow> string \<Rightarrow> string" where
  "slice_str a b s = take (b - a) (drop a s)"

definition slice_last :: "string \<Rightarrow> string" where
  "slice_last s = drop (length s - 1) s"

text \<open>
  \<open>parseInt(s, 16)\<close>: the value of the longest prefix of hexadecimal digits, NaN
  (\<open>None\<close>) when there is none. (The white space, sign and \<open>0x\<close> that \<open>parseInt\<close>
  also accepts in front do not occur in the text of a digest.)
\<close>

definition hex_value :: "char \<Rightarrow> int option" where
  "hex_value c =
    (let n = (of_char c :: int) in
     if 48 \<le> n \<and> n \<le> 57 then Some (n - 48)
     else if 97 \<le> n \<and> n \<le> 102 then Some (n - 87)
     else if 65 \<le> n \<and> n \<le> 70 then Some (n - 55)
     else None)"

fun parse_hex :: "int option \<Rightarrow> string \<Rightarrow> int option" where
  "parse_hex acc [] = acc"
| "parse_hex acc (c # cs) =
    (case hex_value c of
       None \<Rightarrow> acc
     | Some d \<Rightarrow> parse_hex (Some (16 * (case acc of None \<Rightarrow> 0 | Some a \<Rightarrow> a) + d)) cs)"

definition parseInt16 :: "string \<Rightarrow> int option" where
  "parseInt16 s = parse_hex None s"

text \<open>\<open>digest('hex')\<close>: the 64 hexadecimal digits of the 256 bits, the highest first.\<close>

definition digest_hex :: "256 word \<Rightarrow> string" where
  "digest_hex w = map (\<lambda>i. digit_char (uint (drop_bit (4 * (63 - i)) w AND 15))) [0..<64]"

section \<open>One-time codes\<close>

definition TOTP_SECRET :: "runtime \<Rightarrow> string" where
  "TOTP_SECRET R =
    (case env_TOTP_SECRET R of
       None \<Rightarrow> ''geoverify-secret-key-change-in-production''
     | Some s \<Rightarrow> if s = [] then ''geoverify-secret-key-change-in-production'' else s)"

definition TOTP_WINDOW :: int where
  "TOTP_WINDOW = 30000"

definition generateTOTP :: "runtime \<Rightarrow> int \<Rightarrow> string \<Rightarrow> int option \<Rightarrow> string" where
  "generateTOTP R now secret timestamp =
    (let time = (case timestamp of None \<Rightarrow> now | Some t \<Rightarrow> if t = 0 then now else t);
         counter = time div TOTP_WINDOW;
         hash = digest_hex (hmac_sha256 R (TOTP_SECRET R) (secret @ ''-'' @ toString_int counter));
         offset = parseInt16 (slice_last hash);
         part = (case offset of None \<Rightarrow> [] | Some off \<Rightarrow> slice_str (nat (off * 2)) (nat (off * 2 + 8)) hash)
     in case parseInt16 part of
          None \<Rightarrow> padStart 6 (CHR ''0'') ''NaN''
        | Some n \<Rightarrow> padStart 6 (CHR ''0'') (toString_int (n mod 1000000)))"

function verifyTOTP_loop :: "runtime \<Rightarrow> int \<Rightarrow> string \<Rightarrow> string \<Rightarrow> int \<Rightarrow> int \<Rightarrow> bool" where
  "verifyTOTP_loop R now code secret windowSize i =
    (if i \<le> windowSize then
       (let timestamp = now + i * TOTP_WINDOW in
        if generateTOTP R now secret (Some timestamp) = code then True
        else verifyTOTP_loop R now code secret windowSize (i + 1))
     else False)"
  by pat_completeness auto
termination
  by (relation "measure (\<lambda>(R, now, code, secret, windowSize, i). nat (windowSize + 1 - i))") auto

declare verifyTOTP_loop.simps [simp del]

definition verifyTOTP :: "runtime \<Rightarrow> int \<Rightarrow> string \<Rightarrow> string \<Rightarrow> int \<Rightarrow> bool" where
  "verifyTOTP R now code secret windowSize = verifyTOTP_loop R now code secret windowSize (- windowSize)"

section \<open>Redemption tokens\<close>

text \<open>
  A parsed payload is any JSON value. Reading a property of \<open>null\<close> throws a
  \<open>TypeError\<close>; on every other value the five names the code reads (\<open>rid\<close>,
  \<open>uid\<close>, \<open>cid\<close>, \<open>code\<close>, \<open>exp\<close>) are own properties of an object or
  \<open>undefined\<close> (\<open>None\<close>). The list of an object holds each key once.
\<close>

definition get_prop :: "json \<Rightarrow> string \<Rightarrow> js_error + json option" where
  "get_prop v k =
    (case v of
       JNull \<Rightarrow> Inl TypeError
     | JObj kvs \<Rightarrow> Inr (map_of kvs k)
     | _ \<Rightarrow> Inr None)"

text \<open>
  The conversions of a template literal and of \<open>>\<close>: a string converts to itself, a
  number to itself, \<open>undefined\<close> to NaN (\<open>None\<close>), \<open>null\<close> to 0, a boolean to 0 or
  1; everything else is the runtime's.
\<close>

definition ToString :: "runtime \<Rightarrow> json option \<Rightarrow> js_error + string" where
  "ToString R v =
    (case v of
       Some (JStr s) \<Rightarrow> Inr s
     | None \<Rightarrow> Inr ''undefined''
     | Some JNull \<Rightarrow> Inr ''null''
     | Some (JBool b) \<Rightarrow> Inr (if b then ''true'' else ''false'')
     | _ \<Rightarrow> js_ToString R v)"

definition ToNumber :: "runtime \<Rightarrow> json option \<Rightarrow> js_error + rat option" where
  "ToNumber R v =
    (case v of
       Some (JNum n) \<Rightarrow> Inr (Some n)
     | None \<Rightarrow> Inr None
     | Some JNull \<Rightarrow> Inr (Some 0)
     | Some (JBool b) \<Rightarrow> Inr (Some (if b then 1 else 0))
     | _ \<Rightarrow> js_ToNumber R v)"

record qr_result =
  valid :: bool
  data :: "(json option \<times> json option \<times> json option) option"
  qr_error :: "string option"

definition generateSecureQRPayload :: "runtime \<Rightarrow> int \<Rightarrow> string \<Rightarrow> string \<Rightarrow> string \<Rightarrow> string \<times> int" where
  "generateSecureQRPayload R now redemptionId userId campaignId =
    (let secret = redemptionId @ ''-'' @ userId @ ''-'' @ campaignId;
         totp = generateTOTP R now secret None;
         expiresAt = now + TOTP_WINDOW;
         payload = JObj [(''rid'', JStr redemptionId), (''uid'', JStr userId),
                         (''cid'', JStr campaignId), (''code'', JStr totp),
                         (''exp'', JNum (of_int expiresAt))]
     in (base64_JSON_stringify R payload, expiresAt))"

text \<open>The body of the \<open>try\<close> block: a thrown exception is \<open>Inl\<close>.\<close>

definition verifyQRPayload_try :: "runtime \<Rightarrow> int \<Rightarrow> string \<Rightarrow> js_error + qr_result" where
  "verifyQRPayload_try R now encodedPayload =
    (case JSON_parse_base64 R encodedPayload of
       None \<Rightarrow> Inl SyntaxError
     | Some payload \<Rightarrow>
        (case get_prop payload ''exp'' of
           Inl e \<Rightarrow> Inl e
         | Inr exp_field \<Rightarrow>
            (case ToNumber R exp_field of
               Inl e \<Rightarrow> Inl e
             | Inr expn \<Rightarrow>
                if (case expn of None \<Rightarrow> False | Some x \<Rightarrow> of_int now > x)
                then Inr \<lparr>valid = False, data = None, qr_error = Some ''QR code expired''\<rparr>
                else
                  (case (get_prop payload ''rid'', get_prop payload ''uid'', get_prop payload ''cid'',
                         get_prop payload ''code'') of
                     (Inr rid, Inr uid, Inr cid, Inr code) \<Rightarrow>
                       (case ToString R rid of
                          Inl e \<Rightarrow> Inl e
                        | Inr r \<Rightarrow>
                           (case ToString R uid of
                              Inl e \<Rightarrow> Inl e
                            | Inr u \<Rightarrow>
                               (case ToString R cid of
                                  Inl e \<Rightarrow> Inl e
                                | Inr c \<Rightarrow>
                                   (let secret = r @ ''-'' @ u @ ''-'' @ c in
                                    if \<not> (case code of
                                             Some (JStr s) \<Rightarrow> verifyTOTP R now s secret 1
                                           | _ \<Rightarrow> False)
                                    then Inr \<lparr>valid = False, data = None,
                                               qr_error = Some ''Invalid verification code''\<rparr>
                                    else Inr \<lparr>valid = True, data = Some (rid, uid, cid),
                                               qr_error = None\<rparr>))))
                   | _ \<Rightarrow> Inl TypeError))))"

definition verifyQRPayload :: "runtime \<Rightarrow> int \<Rightarrow> string \<Rightarrow> qr_result" where
  "verifyQRPayload R now encodedPayload =
    (case verifyQRPayload_try R now encodedPayload of
       Inl e \<Rightarrow> \<lparr>valid = False, data = None, qr_error = Some ''Invalid QR payload''\<rparr>
     | Inr r \<Rightarrow> r)"

text \<open>The three failures of \<open>verifyQRPayload\<close>, by name.\<close>

definition qr_expired :: qr_result where
  "qr_expired = \<lparr>valid = False, data = None, qr_error = Some ''QR code expired''\<rparr>"

definition qr_invalid_code :: qr_result where
  "qr_invalid_code = \<lparr>valid = False, data = None, qr_error = Some ''Invalid verification code''\<rparr>"

definition qr_malformed :: qr_result where
  "qr_malformed = \<lparr>valid = False, data = None, qr_error = Some ''Invalid QR payload''\<rparr>"

section \<open>Haversine distance\<close>

definition getDistance :: "runtime \<Rightarrow> rat \<Rightarrow> rat \<Rightarrow> rat \<Rightarrow> rat \<Rightarrow> rat" where
  "getDistance R lat1 lng1 lat2 lng2 =
    (let R0 = 6371000;
         phi1 = lat1 * Math_PI R / 180;
         phi2 = lat2 * Math_PI R / 180;
         dphi = (lat2 - lat1) * Math_PI R / 180;
         dlambda = (lng2 - lng1) * Math_PI R / 180;
         a = Math_sin R (dphi / 2) * Math_sin R (dphi / 2) +
             Math_cos R phi1 * Math_cos R phi2 *
             Math_sin R (dlambda / 2) * Math_sin R (dlambda / 2);
         c = 2 * Math_atan2 R (Math_sqrt R a) (Math_sqrt R (1 - a))
     in R0 * c)"

section \<open>The data of a verification: \<open>types/index.ts\<close>\<close>

record Coordinates =
  coord_lat :: rat
  coord_lng :: rat

record BusinessHours =
  dayOfWeek :: int
  openTime :: string
  closeTime :: string

record Campaign =
  campaign_id :: string
  title :: string
  description :: string
  coordinates :: Coordinates
  radius :: rat
  dwellTimeRequired :: rat
  reward :: string
  image :: string
  expiryDate :: int
  active :: bool
  geohash :: "string option"
  businessId :: "string option"
  businessHours :: "BusinessHours list option"
  timezone :: "string option"

record GPSTelemetry =
  latitude :: rat
  longitude :: rat
  accuracy :: rat
  altitude :: "rat option"
  altitudeAccuracy :: "rat option"
  heading :: "rat option"
  speed :: "rat option"
  timestamp :: rat

datatype FlagType =
    IMPOSSIBLE_SPEED | GPS_SPOOF | ACCURACY_ANOMALY | TIMESTAMP_DRIFT
  | ALTITUDE_MISMATCH | DEVICE_CLONE | BUSINESS_HOURS | REPLAY_ATTACK

datatype Severity = LOW | MEDIUM | HIGH | CRITICAL

datatype data_value = DNum rat | DNums "rat list"

record FraudFlag =
  flag_type :: FlagType
  severity :: Severity
  message :: string
  flag_data :: "(string \<times> data_value) list option"

record VerificationRequest =
  sessionId :: string
  userId :: string
  campaignId :: string
  telemetry :: "GPSTelemetry list"
  deviceFingerprint :: string
  clientTimestamp :: int

record VerificationResult =
  success :: bool
  redemptionId :: "string option"
  totpCode :: "string option"
  expiresAt :: "int option"
  error :: "string option"
  fraudFlags :: "FraudFlag list option"
  riskScore :: int

section \<open>Fraud detection engine\<close>

text \<open>\<open>`${Math.round(x)}`\<close>: a rounded number in a message.\<close>

definition show_round :: "rat \<Rightarrow> string" where
  "show_round x = toString_int (Math_round x)"

text \<open>
  The impossible-speed check on one pair of consecutive readings: the body of the loop
  \<open>for (let i = 1; i < sorted.length; i++)\<close>, on the pair of the flags and the score.
\<close>

definition speed_step ::
  "runtime \<Rightarrow> GPSTelemetry \<Rightarrow> GPSTelemetry \<Rightarrow> FraudFlag list \<times> int \<Rightarrow> FraudFlag list \<times> int" where
  "speed_step R prev_t curr_t acc =
    (let distance = getDistance R (latitude prev_t) (longitude prev_t) (latitude curr_t) (longitude curr_t);
         timeDelta = (timestamp curr_t - timestamp prev_t) / 1000
     in if timeDelta > 0 then
          (let speed = distance / timeDelta in
           if speed > 100 then
             (fst acc @ [\<lparr>flag_type = IMPOSSIBLE_SPEED, severity = CRITICAL,
                message = ''Teleportation detected: '' @ show_round (speed * (36 / 10)) @
                          '' km/h between readings'',
                flag_data = Some [(''speed'', DNum speed), (''distance'', DNum distance),
                                  (''timeDelta'', DNum timeDelta)]\<rparr>],
              snd acc + 100)
           else if speed > 35 \<and> distance > 100 then
             (fst acc @ [\<lparr>flag_type = IMPOSSIBLE_SPEED, severity = HIGH,
                message = ''Suspicious speed: '' @ show_round (speed * (36 / 10)) @ '' km/h'',
                flag_data = Some [(''speed'', DNum speed), (''distance'', DNum distance)]\<rparr>],
              snd acc + 30)
           else acc)
        else acc)"

function speed_loop ::
  "runtime \<Rightarrow> GPSTelemetry list \<Rightarrow> nat \<Rightarrow> FraudFlag list \<times> int \<Rightarrow> FraudFlag list \<times> int" where
  "speed_loop R sorted_t i acc =
    (if i < length sorted_t
     then speed_loop R sorted_t (i + 1) (speed_step R (sorted_t ! (i - 1)) (sorted_t ! i) acc)
     else acc)"
  by pat_completeness auto
termination
  by (relation "measure (\<lambda>(R, sorted_t, i, acc). length sorted_t - i)") auto

declare speed_loop.simps [simp del]

definition accuracy_check :: "GPSTelemetry list \<Rightarrow> FraudFlag list \<times> int \<Rightarrow> FraudFlag list \<times> int" where
  "accuracy_check sorted_t acc =
    (let accuracies = map accuracy sorted_t;
         avgAccuracy = foldl (+) 0 accuracies / of_nat (length accuracies);
         hasWildAccuracySwings = list_ex (\<lambda>a. \<bar>a - avgAccuracy\<bar> > 50) accuracies
     in if hasWildAccuracySwings then
          (fst acc @ [\<lparr>flag_type = ACCURACY_ANOMALY, severity = MEDIUM,
             message = ''GPS accuracy fluctuating abnormally'',
             flag_data = Some [(''avgAccuracy'', DNum avgAccuracy), (''accuracies'', DNums accuracies)]\<rparr>],
           snd acc + 20)
        else acc)"

definition perfect_check :: "GPSTelemetry list \<Rightarrow> FraudFlag list \<times> int \<Rightarrow> FraudFlag list \<times> int" where
  "perfect_check sorted_t acc =
    (let perfectCoords =
           filter (\<lambda>t. latitude t = latitude (sorted_t ! 0) \<and> longitude t = longitude (sorted_t ! 0)) sorted_t
     in if length perfectCoords = length sorted_t \<and> length sorted_t > 5 then
          (fst acc @ [\<lparr>flag_type = GPS_SPOOF, severity = CRITICAL,
             message = ''Coordinates are perfectly static - definite spoof'',
             flag_data = None\<rparr>],
           snd acc + 100)
        else acc)"

definition drift_check :: "int \<Rightarrow> GPSTelemetry list \<Rightarrow> FraudFlag list \<times> int \<Rightarrow> FraudFlag list \<times> int" where
  "drift_check now sorted_t acc =
    (let serverTime = of_int now;
         clientTime = timestamp (sorted_t ! (length sorted_t - 1));
         drift = \<bar>serverTime - clientTime\<bar>
     in if drift > 60000 then
          (fst acc @ [\<lparr>flag_type = TIMESTAMP_DRIFT, severity = MEDIUM,
             message = ''Client clock drift: '' @ show_round (drift / 1000) @ ''s'',
             flag_data = Some [(''drift'', DNum drift)]\<rparr>],
           snd acc + 25)
        else acc)"

text \<open>\<open>Math.max(...xs)\<close> and \<open>Math.min(...xs)\<close>; the code calls them on more than three numbers.\<close>

definition Math_max :: "rat list \<Rightarrow> rat" where
  "Math_max xs = foldl max (hd xs) (tl xs)"

definition Math_min :: "rat list \<Rightarrow> rat" where
  "Math_min xs = foldl min (hd xs) (tl xs)"

definition altitude_check :: "GPSTelemetry list \<Rightarrow> FraudFlag list \<times> int \<Rightarrow> FraudFlag list \<times> int" where
  "altitude_check sorted_t acc =
    (let altitudes = List.map_filter altitude sorted_t
     in if length altitudes > 3 then
          (let altVariance = Math_max altitudes - Math_min altitudes
           in if altVariance > 500 then
                (fst acc @ [\<lparr>flag_type = ALTITUDE_MISMATCH, severity = MEDIUM,
                   message = ''Altitude variance of '' @ show_round altVariance @ ''m is suspicious'',
                   flag_data = None\<rparr>],
                 snd acc + 15)
              else acc)
        else acc)"

definition dwell_check ::
  "runtime \<Rightarrow> Campaign \<Rightarrow> GPSTelemetry list \<Rightarrow> FraudFlag list \<times> int \<Rightarrow> FraudFlag list \<times> int" where
  "dwell_check R campaign sorted_t acc =
    (let timeInZone =
           filter (\<lambda>t. getDistance R (latitude t) (longitude t)
                          (coord_lat (coordinates campaign)) (coord_lng (coordinates campaign))
                        \<le> radius campaign + 20) sorted_t;
         actualDwellTime =
           (if length timeInZone > 1
            then (timestamp (timeInZone ! (length timeInZone - 1)) - timestamp (timeInZone ! 0)) / 1000
            else 0)
     in if actualDwellTime < dwellTimeRequired campaign * (8 / 10) then
          (fst acc @ [\<lparr>flag_type = GPS_SPOOF, severity = HIGH,
             message = ''Dwell time '' @ show_round actualDwellTime @ ''s is below required '' @
                       Number_toString R (dwellTimeRequired campaign) @ ''s'',
             flag_data = Some [(''actualDwellTime'', DNum actualDwellTime),
                               (''required'', DNum (dwellTimeRequired campaign))]\<rparr>],
           snd acc + 35)
        else acc)"

definition analyzeTelemetry ::
  "runtime \<Rightarrow> int \<Rightarrow> GPSTelemetry list \<Rightarrow> Campaign \<Rightarrow> string \<Rightarrow> FraudFlag list \<times> int" where
  "analyzeTelemetry R now telemetry0 campaign userId0 =
    (if length telemetry0 < 2 then
       ([\<lparr>flag_type = GPS_SPOOF, severity = HIGH,
          message = ''Insufficient telemetry data - possible single-point spoof'',
          flag_data = None\<rparr>], 0 + 40)
     else
       (let sorted_t = sort_key timestamp telemetry0;
            acc1 = speed_loop R sorted_t 1 ([], 0);
            acc2 = accuracy_check sorted_t acc1;
            acc3 = perfect_check sorted_t acc2;
            acc4 = drift_check now sorted_t acc3;
            acc5 = altitude_check sorted_t acc4;
            acc6 = dwell_check R campaign sorted_t acc5
        in (fst acc6, min (snd acc6) 100)))"

section \<open>Business hours\<close>

definition DEFAULT_BUSINESS_HOURS :: "BusinessHours list" where
  "DEFAULT_BUSINESS_HOURS =
    [\<lparr>dayOfWeek = 0, openTime = ''10:00'', closeTime = ''20:00''\<rparr>,
     \<lparr>dayOfWeek = 1, openTime = ''08:00'', closeTime = ''22:00''\<rparr>,
     \<lparr>dayOfWeek = 2, openTime = ''08:00'', closeTime = ''22:00''\<rparr>,
     \<lparr>dayOfWeek = 3, openTime = ''08:00'', closeTime = ''22:00''\<rparr>,
     \<lparr>dayOfWeek = 4, openTime = ''08:00'', closeTime = ''22:00''\<rparr>,
     \<lparr>dayOfWeek = 5, openTime = ''08:00'', closeTime = ''23:00''\<rparr>,
     \<lparr>dayOfWeek = 6, openTime = ''09:00'', closeTime = ''23:00''\<rparr>]"

text \<open>
  The result \<open>{ valid, message? }\<close> is a pair. The optional parameters \<open>hours\<close> and
  \<open>timezone\<close> take their defaults when \<open>undefined\<close> is passed.
\<close>

definition isWithinBusinessHours ::
  "runtime \<Rightarrow> int \<Rightarrow> BusinessHours list option \<Rightarrow> string option \<Rightarrow> bool \<times> string option" where
  "isWithinBusinessHours R timestamp0 hours0 timezone0 =
    (let hours = (case hours0 of None \<Rightarrow> DEFAULT_BUSINESS_HOURS | Some h \<Rightarrow> h);
         tz = (case timezone0 of None \<Rightarrow> ''Africa/Nairobi'' | Some z \<Rightarrow> z);
         day = Date_getDay R timestamp0;
         todayHours = find (\<lambda>h. dayOfWeek h = day) hours
     in case todayHours of
          None \<Rightarrow> (False, Some ''Business closed today'')
        | Some th \<Rightarrow>
           (let timeStr = Date_toLocaleTimeString R timestamp0 tz in
            if timeStr < openTime th \<or> timeStr > closeTime th
            then (False, Some (''Business hours are '' @ openTime th @ '' - '' @ closeTime th))
            else (True, None)))"

section \<open>Replay and rate-limit guard\<close>

record guard_state =
  usedSessionIds :: "string \<rightharpoonup> int"
  recentRedemptions :: "string \<rightharpoonup> int"
  lastCleanup :: int

definition CLEANUP_INTERVAL :: int where
  "CLEANUP_INTERVAL = 5 * 60 * 1000"

definition SESSION_TTL :: int where
  "SESSION_TTL = 24 * 60 * 60 * 1000"

text \<open>
  The two \<open>for ... of\<close> loops delete every entry the test selects; on a map as a
  function that is one pass over the keys.
\<close>

definition delete_expired :: "int \<Rightarrow> (string \<rightharpoonup> int) \<Rightarrow> (string \<rightharpoonup> int)" where
  "delete_expired now m =
    (\<lambda>key. case m key of
              None \<Rightarrow> None
            | Some timestamp0 \<Rightarrow> if now - timestamp0 > SESSION_TTL then None else Some timestamp0)"

definition cleanupExpiredSessions :: "int \<Rightarrow> guard_state \<Rightarrow> guard_state" where
  "cleanupExpiredSessions now st =
    (if now - lastCleanup st < CLEANUP_INTERVAL then st
     else st\<lparr>lastCleanup := now,
             usedSessionIds := delete_expired now (usedSessionIds st),
             recentRedemptions := delete_expired now (recentRedemptions st)\<rparr>)"

section \<open>The orchestrator\<close>

text \<open>
  One call reads the clock several times; the model gives the call one instant
  \<open>now\<close>. \<open>rnd\<close> is the text \<open>randomBytes(8).toString('hex')\<close> of the call.
\<close>

definition verifyRedemption ::
  "runtime \<Rightarrow> int \<Rightarrow> string \<Rightarrow> VerificationRequest \<Rightarrow> Campaign \<Rightarrow> guard_state
     \<Rightarrow> VerificationResult \<times> guard_state" where
  "verifyRedemption R now rnd request campaign st0 =
    (let st = cleanupExpiredSessions now st0 in
     if usedSessionIds st (sessionId request) \<noteq> None then
       (\<lparr>success = False, redemptionId = None, totpCode = None, expiresAt = None,
         error = Some ''Session already used - possible replay attack'',
         fraudFlags = Some [\<lparr>flag_type = REPLAY_ATTACK, severity = CRITICAL,
                             message = ''Duplicate session ID detected'', flag_data = None\<rparr>],
         riskScore = 100\<rparr>, st)
     else
       (let userCampaignKey = userId request @ ''-'' @ campaignId request;
            lastRedemption = recentRedemptions st userCampaignKey
        in if (case lastRedemption of
                 None \<Rightarrow> False
               | Some t \<Rightarrow> t \<noteq> 0 \<and> now - t < 24 * 60 * 60 * 1000) then
             (\<lparr>success = False, redemptionId = None, totpCode = None, expiresAt = None,
               error = Some ''Already redeemed this campaign in the last 24 hours'',
               fraudFlags = Some [], riskScore = 0\<rparr>, st)
           else
             (let hoursCheck =
                    (case businessHours campaign of
                       None \<Rightarrow> (True, None)
                     | Some hs \<Rightarrow>
                         if length hs > 0
                         then isWithinBusinessHours R (clientTimestamp request) (Some hs) (timezone campaign)
                         else (True, None))
              in if \<not> fst hoursCheck then
                   (\<lparr>success = False, redemptionId = None, totpCode = None, expiresAt = None,
                     error = snd hoursCheck,
                     fraudFlags = Some [\<lparr>flag_type = BUSINESS_HOURS, severity = HIGH,
                        message = (case snd hoursCheck of
                                     None \<Rightarrow> ''Outside business hours''
                                   | Some m \<Rightarrow> if m = [] then ''Outside business hours'' else m),
                        flag_data = None\<rparr>],
                     riskScore = 50\<rparr>, st)
                 else
                   (let (flags, score) = analyzeTelemetry R now (telemetry request) campaign (userId request)
                    in if score \<ge> 70 then
                         (\<lparr>success = False, redemptionId = None, totpCode = None, expiresAt = None,
                           error = Some ''Verification failed: Suspicious activity detected'',
                           fraudFlags = Some flags, riskScore = score\<rparr>, st)
                       else
                         (let st1 = st\<lparr>usedSessionIds := (usedSessionIds st)(sessionId request \<mapsto> now)\<rparr>;
                              st2 = st1\<lparr>recentRedemptions := (recentRedemptions st1)(userCampaignKey \<mapsto> now)\<rparr>;
                              rid = ''r_'' @ toString_int now @ ''_'' @ rnd;
                              (payload, expires) =
                                generateSecureQRPayload R now rid (userId request) (campaignId request)
                          in (\<lparr>success = True, redemptionId = Some rid, totpCode = Some payload,
                                expiresAt = Some expires, error = None,
                                fraudFlags = (if length flags > 0 then Some flags else None),
                                riskScore = score\<rparr>, st2))))))"

definition generateSessionId :: "int \<Rightarrow> string \<Rightarrow> string" where
  "generateSessionId now rnd = ''sess_'' @ toString_int now @ ''_'' @ rnd"

section \<open>Concrete inputs for the examples\<close>

text \<open>
  A token and its payload, \<open>{"rid":"r1","uid":"u1","cid":"c1","code":"000017",
  "exp":1700000030000}\<close> in base 64, and the same token with the code replaced by
  \<open>BADBAD\<close>.
\<close>

definition example_token :: string where
  "example_token =
    ''eyJyaWQiOiJyMSIsInVpZCI6InUxIiwiY2lkIjoiYzEiLCJjb2RlIjoiMDAwMDE3IiwiZXhwIjoxNzAwMDAwMDMwMDAwfQ==''"

definition example_payload :: json where
  "example_payload =
    JObj [(''rid'', JStr ''r1''), (''uid'', JStr ''u1''), (''cid'', JStr ''c1''),
          (''code'', JStr ''000017''), (''exp'', JNum 1700000030000)]"

definition tampered_token :: string where
  "tampered_token =
    ''eyJyaWQiOiJyMSIsInVpZCI6InUxIiwiY2lkIjoiYzEiLCJjb2RlIjoiQkFEQkFEIiwiZXhwIjoxNzAwMDAwMDMwMDAwfQ==''"

definition tampered_payload :: json where
  "tampered_payload =
    JObj [(''rid'', JStr ''r1''), (''uid'', JStr ''u1''), (''cid'', JStr ''c1''),
          (''code'', JStr ''BADBAD''), (''exp'', JNum 1700000030000)]"

text \<open>
  A runtime for the examples. Every distance the examples compute is between equal
  points, where the source computes \<open>sin 0\<close>, \<open>sqrt 0\<close>, \<open>sqrt 1\<close> and
  \<open>atan2(0, 1)\<close> and multiplies the cosines by \<open>sin 0\<close>: the \<open>Math\<close> of this
  runtime agrees with the platform's there, and the distance is 0 in both. Its HMAC is a
  stand-in that puts the length of the message into the first four bytes of the digest;
  its JSON parser knows the texts \<open>{}\<close>, \<open>null\<close>, the token and the tampered
  token, and fails on every other string.
\<close>

definition example_runtime :: runtime where
  "example_runtime =
    \<lparr>Math_sin = (\<lambda>x. x),
     Math_cos = (\<lambda>x. 1),
     Math_sqrt = (\<lambda>x. x),
     Math_atan2 = (\<lambda>y x. y),
     Math_PI = 355 / 113,
     Number_toString = (\<lambda>x. toString_int \<lfloor>x\<rfloor>),
     hmac_sha256 = (\<lambda>key msg. push_bit 224 (word_of_nat (length msg))),
     env_TOTP_SECRET = None,
     Date_getDay = (\<lambda>t. (t div 86400000 + 4) mod 7),
     Date_toLocaleTimeString = (\<lambda>t tz. ''12:00''),
     base64_JSON_stringify = (\<lambda>j. if j = example_payload then example_token else ''e30=''),
     JSON_parse_base64 =
       (\<lambda>s. if s = ''e30='' then Some (JObj [])
            else if s = ''bnVsbA=='' then Some JNull
            else if s = example_token then Some example_payload
            else if s = tampered_token then Some tampered_payload
            else None),
     js_ToString = (\<lambda>v. Inr ''[object Object]''),
     js_ToNumber = (\<lambda>v. Inr None)\<rparr>"

definition example_campaign :: Campaign where
  "example_campaign =
    \<lparr>campaign_id = ''c_1'', title = ''Java House Kimathi St'', description = '''',
     coordinates = \<lparr>coord_lat = - 12842 / 10000, coord_lng = 368252 / 10000\<rparr>,
     radius = 40, dwellTimeRequired = 15, reward = ''Free Coffee Upgrade'', image = '''',
     expiryDate = 1800000000000, active = True, geohash = Some ''kzf0typ'',
     businessId = None, businessHours = None, timezone = None\<rparr>"

definition reading :: "rat \<Rightarrow> GPSTelemetry" where
  "reading t =
    \<lparr>latitude = - 12842 / 10000, longitude = 368252 / 10000, accuracy = 10,
     altitude = None, altitudeAccuracy = None, heading = None, speed = None, timestamp = t\<rparr>"

definition example_request :: "string \<Rightarrow> string \<Rightarrow> int \<Rightarrow> VerificationRequest" where
  "example_request sid uid now =
    \<lparr>sessionId = sid, userId = uid, campaignId = ''c_1'',
     telemetry = [reading (of_int now - 20000), reading (of_int now)],
     deviceFingerprint = ''fp'', clientTimestamp = now\<rparr>"

definition empty_guard :: guard_state where
  "empty_guard = \<lparr>usedSessionIds = Map.empty, recentRedemptions = Map.empty, lastCleanup = 0\<rparr>"

definition first_call :: "VerificationResult \<times> guard_state" where
  "first_call =
    verifyRedemption example_runtime 1700000000000 ''0a''
      (example_request ''s1'' ''u1'' 1700000000000) example_campaign empty_guard"

definition after_first_call :: guard_state where
  "after_first_call =
    \<lparr>usedSessionIds = [''s1'' \<mapsto> 1700000000000],
     recentRedemptions = [''u1-c_1'' \<mapsto> 1700000000000],
     lastCleanup = 1700000000000\<rparr>"

text \<open>
  The increments as the spec lists them with the checks (section 4.3), by the kind of
  flag, to compare the score of the code with. The two HIGH \<open>GPS_SPOOF\<close> flags
  differ in their data: the dwell-time flag carries it, the insufficient-data flag does
  not.
\<close>

definition spec_increment :: "FraudFlag \<Rightarrow> int" where
  "spec_increment f =
    (case (flag_type f, severity f) of
       (IMPOSSIBLE_SPEED, CRITICAL) \<Rightarrow> 100
     | (IMPOSSIBLE_SPEED, HIGH) \<Rightarrow> 30
     | (ACCURACY_ANOMALY, MEDIUM) \<Rightarrow> 20
     | (GPS_SPOOF, CRITICAL) \<Rightarrow> 100
     | (TIMESTAMP_DRIFT, MEDIUM) \<Rightarrow> 25
     | (ALTITUDE_MISMATCH, MEDIUM) \<Rightarrow> 15
     | (GPS_SPOOF, HIGH) \<Rightarrow> (if flag_data f = None then 40 else 35)
     | _ \<Rightarrow> 0)"

definition score_is_sum :: "FraudFlag list \<times> int \<Rightarrow> bool" where
  "score_is_sum acc \<longleftrightarrow> snd acc = sum_list (map spec_increment (fst acc))"

text \<open>The 64 four-bit digits of a digest, the highest first.\<close>

definition nibbles :: "256 word \<Rightarrow> int list" where
  "nibbles w = map (\<lambda>i. uint (drop_bit (4 * (63 - i)) w AND 15)) [0..<64]"

section \<open>Properties of the geospatial index\<close>

lemma indexOf_nth: "distinct xs \<Longrightarrow> i < length xs \<Longrightarrow> indexOf xs (xs ! i) = Some i"
proof (induction xs arbitrary: i)
  case Nil
  then show ?case by simp
next
  case (Cons x xs)
  show ?case
  proof (cases i)
    case 0
    then show ?thesis by simp
  next
    case (Suc j)
    with Cons.prems have "j < length xs" "xs ! j \<in> set xs" "x \<notin> set xs" "distinct xs"
      by auto
    with Cons.IH [of j] Suc show ?thesis by auto
  qed
qed

lemma indexOf_None_iff: "indexOf xs c = None \<longleftrightarrow> c \<notin> set xs"
  by (induction xs) auto

lemma distinct_BASE32: "distinct BASE32"
  by (simp add: BASE32_def)

lemma length_BASE32: "length BASE32 = 32"
  by (simp add: BASE32_def)

lemma lower_char_BASE32: "c \<in> set BASE32 \<Longrightarrow> lower_char c = c"
  by (auto simp: BASE32_def lower_char_def)

lemma lower_char_idem: "lower_char (lower_char c) = lower_char c"
  by (simp add: lower_char_def Let_def of_char_of)

lemma toLowerCase_idem: "toLowerCase (toLowerCase s) = toLowerCase s"
  by (simp add: toLowerCase_def lower_char_idem)

lemma toLowerCase_BASE32: "set s \<subseteq> set BASE32 \<Longrightarrow> toLowerCase s = s"
  by (induction s) (auto simp: toLowerCase_def lower_char_BASE32)

lemma decode_loop_append:
  "decode_loop (xs @ ys) s =
    (case decode_loop xs s of Inl e \<Rightarrow> Inl e | Inr s' \<Rightarrow> decode_loop ys s')"
  by (induction xs arbitrary: s) (auto split: option.splits)

lemma decode_loop_Inl:
  "decode_loop cs s = Inl e \<Longrightarrow> \<exists>c. e = InvalidGeohashCharacter c \<and> c \<in> set cs \<and> c \<notin> set BASE32"
proof (induction cs arbitrary: s)
  case Nil
  then show ?case by simp
next
  case (Cons x xs)
  show ?case
  proof (cases "indexOf BASE32 x")
    case None
    with Cons.prems show ?thesis
      by (auto simp: indexOf_None_iff)
  next
    case (Some idx)
    with Cons.prems have "decode_loop xs (decode_bits idx 5 s) = Inl e" by simp
    from Cons.IH [OF this] show ?thesis by auto
  qed
qed

lemma decode_loop_Inr:
  "set cs \<subseteq> set BASE32 \<Longrightarrow> \<exists>s'. decode_loop cs s = Inr s'"
proof (induction cs arbitrary: s)
  case Nil
  then show ?case by simp
next
  case (Cons x xs)
  then obtain idx where "indexOf BASE32 x = Some idx"
    using indexOf_None_iff [of BASE32 x] by auto
  with Cons show ?case by simp
qed

lemma decode_loop_Inr_subset:
  "decode_loop cs s = Inr s' \<Longrightarrow> set cs \<subseteq> set BASE32"
proof (induction cs arbitrary: s)
  case Nil
  then show ?case by simp
next
  case (Cons x xs)
  then show ?case
    using indexOf_None_iff [of BASE32 x] by (auto split: option.splits)
qed

text \<open>
  Claim C8, as amended. \<open>decodeGeohash\<close> lowercases its input before it looks the
  characters up, so it fails with the invalid-character error exactly when some
  character of the lowercased input is outside the base-32 alphabet, and returns a cell
  otherwise. The error names a character of the lowercased input that is outside the
  alphabet.
\<close>

theorem decodeGeohash_fails_iff_lowercase_outside:
  "(set (toLowerCase h) \<subseteq> set BASE32 \<longrightarrow> (\<exists>r. decodeGeohash h = Inr r)) \<and>
   (\<not> set (toLowerCase h) \<subseteq> set BASE32 \<longrightarrow>
      (\<exists>c. decodeGeohash h = Inl (InvalidGeohashCharacter c) \<and>
           c \<in> set (toLowerCase h) \<and> c \<notin> set BASE32))"
proof (cases "decode_loop (toLowerCase h) dec_init")
  case (Inl e)
  from decode_loop_Inl [OF this] obtain c where
    "e = InvalidGeohashCharacter c" "c \<in> set (toLowerCase h)" "c \<notin> set BASE32"
    by blast
  with Inl show ?thesis
    by (auto simp: decodeGeohash_def)
next
  case (Inr s)
  from decode_loop_Inr_subset [OF this] Inr show ?thesis
    by (simp add: decodeGeohash_def)
qed

theorem decodeGeohash_fails_iff_witness:
  "(\<exists>r. decodeGeohash ''Kz'' = Inr r) \<and> \<not> set ''Kz'' \<subseteq> set BASE32 \<and>
   (\<exists>c. decodeGeohash ''kza'' = Inl (InvalidGeohashCharacter c) \<and> c \<notin> set BASE32)"
proof -
  have "set (toLowerCase ''Kz'') \<subseteq> set BASE32" by code_simp
  moreover have "\<not> set (toLowerCase ''kza'') \<subseteq> set BASE32" by code_simp
  moreover have "\<not> set ''Kz'' \<subseteq> set BASE32" by code_simp
  ultimately show ?thesis
    using decodeGeohash_fails_iff_lowercase_outside [of "''Kz''"]
      decodeGeohash_fails_iff_lowercase_outside [of "''kza''"]
    by blast
qed

text \<open>
  The claim C8 as it is written fails at the input \<open>B\<close>: the character is not in the
  alphabet (which has lower-case letters only), and the call returns a cell.
\<close>

theorem decodeGeohash_uppercase_counterexample:
  "CHR ''B'' \<notin> set BASE32 \<and>
   decodeGeohash ''B'' =
     Inr \<lparr>lat = 135 / 2, lng = - (315 / 2), latError = 45 / 2, lngError = 45 / 2\<rparr>"
  by code_simp

text \<open>
  Claim C10. \<open>decodeGeohash\<close> is case-insensitive: for every string it returns what it
  returns on the lowercased string; an input whose characters all have a lowercase form
  in the alphabet is accepted; and the invalid-character error is raised only for the
  lowercase form of an input character, a form that is outside the alphabet.
\<close>

theorem decodeGeohash_case_insensitive:
  "decodeGeohash h = decodeGeohash (toLowerCase h) \<and>
   (set (map lower_char h) \<subseteq> set BASE32 \<longrightarrow> (\<exists>r. decodeGeohash h = Inr r)) \<and>
   (\<forall>c. decodeGeohash h = Inl (InvalidGeohashCharacter c) \<longrightarrow>
        c \<in> lower_char ` set h \<and> c \<notin> set BASE32)"
proof -
  have eq: "decodeGeohash h = decodeGeohash (toLowerCase h)"
    by (simp add: decodeGeohash_def toLowerCase_idem)
  have ok: "\<exists>r. decodeGeohash h = Inr r" if "set (map lower_char h) \<subseteq> set BASE32"
  proof -
    from that have "set (toLowerCase h) \<subseteq> set BASE32"
      by (simp add: toLowerCase_def)
    from decode_loop_Inr [OF this, of dec_init] show ?thesis
      by (auto simp: decodeGeohash_def)
  qed
  have err: "c \<in> lower_char ` set h \<and> c \<notin> set BASE32"
    if "decodeGeohash h = Inl (InvalidGeohashCharacter c)" for c
  proof -
    from that have "decode_loop (toLowerCase h) dec_init = Inl (InvalidGeohashCharacter c)"
      by (auto simp: decodeGeohash_def split: sum.splits)
    from decode_loop_Inl [OF this] show ?thesis
      by (auto simp: toLowerCase_def)
  qed
  from eq ok err show ?thesis by blast
qed

theorem decodeGeohash_case_insensitive_witness:
  "decodeGeohash ''KZ'' = decodeGeohash ''kz'' \<and>
   decodeGeohash ''KZ'' = Inr \<lparr>lat = - (45 / 16), lng = 315 / 8, latError = 45 / 16, lngError = 45 / 8\<rparr> \<and>
   decodeGeohash ''kA'' = Inl (InvalidGeohashCharacter (CHR ''a'')) \<and>
   CHR ''a'' \<in> lower_char ` set ''kA'' \<and> CHR ''a'' \<notin> set BASE32"
proof -
  have l: "toLowerCase ''KZ'' = ''kz''" by code_simp
  have a: "decodeGeohash ''kA'' = Inl (InvalidGeohashCharacter (CHR ''a''))" by code_simp
  have k: "decodeGeohash ''kz'' = Inr \<lparr>lat = - (45 / 16), lng = 315 / 8, latError = 45 / 16, lngError = 45 / 8\<rparr>"
    by code_simp
  from decodeGeohash_case_insensitive [of "''KZ''"] l k
  have "decodeGeohash ''KZ'' = decodeGeohash ''kz''" by simp
  moreover from decodeGeohash_case_insensitive [of "''kA''"] a
  have "CHR ''a'' \<in> lower_char ` set ''kA'' \<and> CHR ''a'' \<notin> set BASE32" by blast
  ultimately show ?thesis using a k by simp
qed

section \<open>The round trip of a coordinate\<close>

lemma decode_bits_5: "decode_bits idx 5 d = decode_top idx 5 d"
  by (simp add: eval_nat_numeral)

lemma decode_bit_cong: "bit x b = bit y b \<Longrightarrow> decode_bit x b d = decode_bit y b d"
proof -
  assume "bit x b = bit y b"
  then have "(drop_bit b x AND 1 = 1) = (drop_bit b y AND 1 = 1)"
    by (simp only: bit_iff_and_drop_bit_eq_1)
  then show ?thesis
    unfolding decode_bit_def Let_def by presburger
qed

lemma decode_top_cong:
  "k \<le> 5 \<Longrightarrow> (\<And>j. 5 - k \<le> j \<Longrightarrow> j < 5 \<Longrightarrow> bit x j = bit y j) \<Longrightarrow>
   decode_top x k d = decode_top y k d"
proof (induction k)
  case 0
  then show ?case by simp
next
  case (Suc k)
  have "decode_top x k d = decode_top y k d"
    using Suc.prems by (intro Suc.IH) auto
  moreover have "bit x (4 - k) = bit y (4 - k)"
    using Suc.prems by auto
  ultimately show ?case
    using decode_bit_cong [of x "4 - k" y] by simp
qed

lemma or_bound32:
  assumes "c < 32"
  shows "c OR push_bit k (1::nat) < 32 \<or> 4 < k"
proof (cases "4 < k")
  case True
  then show ?thesis by simp
next
  case False
  have c: "take_bit 5 c = c"
    using assms by (simp add: take_bit_nat_eq_self)
  have "(2::nat) ^ k \<le> 2 ^ 4"
    using False by (intro power_increasing) auto
  then have "push_bit k (1::nat) < 2 ^ 5"
    by (simp add: push_bit_eq_mult)
  then have p: "take_bit 5 (push_bit k (1::nat)) = push_bit k 1"
    by (rule take_bit_nat_eq_self)
  have "take_bit 5 (c OR push_bit k (1::nat)) = c OR push_bit k 1"
    by (simp only: take_bit_or c p)
  then have "c OR push_bit k (1::nat) < 2 ^ 5"
    by (simp only: take_bit_nat_eq_self_iff)
  then show ?thesis by simp
qed

lemma decode_bit_narrow: "decode_bit idx b d = narrow (bit idx b) d"
proof -
  have "(drop_bit b idx AND 1 = 1) = bit idx b"
    by (simp only: bit_iff_and_drop_bit_eq_1)
  then show ?thesis
    unfolding decode_bit_def narrow_def Let_def by (auto simp del: and_one_eq)
qed

lemma body_box: "enc_box (encode_body la lo s) = narrow (enc_decision la lo s) (enc_box s)"
  by (simp add: encode_body_def enc_box_def narrow_def enc_decision_def Let_def)

lemma body_bit:
  "e_bit (encode_body la lo s) = (if e_bit s = 4 then 0 else e_bit s + 1)"
  by (simp add: encode_body_def Let_def)

lemma body_ch:
  "e_ch (encode_body la lo s) = (if e_bit s = 4 then 0 else enc_next_ch la lo s)"
  by (simp add: encode_body_def Let_def enc_next_ch_def enc_decision_def)

lemma body_hash:
  "e_hash (encode_body la lo s) =
    (if e_bit s = 4 then e_hash s @ charAt BASE32 (enc_next_ch la lo s) else e_hash s)"
  by (simp add: encode_body_def Let_def enc_next_ch_def enc_decision_def)

lemma body_bounds:
  assumes "e_minLat s \<le> la" "la \<le> e_maxLat s" "e_minLng s \<le> lo" "lo \<le> e_maxLng s"
  shows "e_minLat (encode_body la lo s) \<le> la \<and> la \<le> e_maxLat (encode_body la lo s) \<and>
         e_minLng (encode_body la lo s) \<le> lo \<and> lo \<le> e_maxLng (encode_body la lo s)"
  using assms by (simp add: encode_body_def Let_def)

lemma next_ch_bits:
  assumes "e_bit s < 5" and low: "\<And>j. j < 5 - e_bit s \<Longrightarrow> \<not> bit (e_ch s) j"
  shows "bit (enc_next_ch la lo s) j \<longleftrightarrow>
         (if j = 4 - e_bit s then enc_decision la lo s else bit (e_ch s) j)"
proof (cases "enc_decision la lo s")
  case False
  have "4 - e_bit s < 5 - e_bit s"
    using assms(1) by simp
  then have "\<not> bit (e_ch s) (4 - e_bit s)"
    by (rule low)
  with False show ?thesis
    by (auto simp: enc_next_ch_def)
next
  case True
  have "bit (push_bit (4 - e_bit s) (1::nat)) j \<longleftrightarrow> j = 4 - e_bit s"
    by (auto simp: bit_exp_iff)
  moreover have "\<not> bit (e_ch s) (4 - e_bit s)"
    using assms(1) by (intro low) simp
  ultimately show ?thesis
    using True by (auto simp: enc_next_ch_def bit_or_iff)
qed

lemma next_ch_less: "e_ch s < 32 \<Longrightarrow> e_bit s < 5 \<Longrightarrow> enc_next_ch la lo s < 32"
  using or_bound32 [of "e_ch s" "4 - e_bit s"] by (auto simp: enc_next_ch_def)

lemma encode_inv_body:
  assumes inv: "encode_inv la lo s"
  shows "encode_inv la lo (encode_body la lo s)"
proof -
  let ?c = "enc_next_ch la lo s" and ?b = "e_bit s" and ?s' = "encode_body la lo s"
  from inv obtain d where
    b: "?b < 5" and c: "e_ch s < 32" and
    low: "\<And>j. j < 5 - ?b \<Longrightarrow> \<not> bit (e_ch s) j" and
    hs: "set (e_hash s) \<subseteq> set BASE32" and
    d: "decode_loop (e_hash s) dec_init = Inr d" and
    box: "enc_box s = decode_top (e_ch s) ?b d" and
    bounds: "e_minLat s \<le> la" "la \<le> e_maxLat s" "e_minLng s \<le> lo" "lo \<le> e_maxLng s"
    unfolding encode_inv_def by blast
  have c': "?c < 32" using c b by (rule next_ch_less)
  have bits: "bit ?c j \<longleftrightarrow> (if j = 4 - ?b then enc_decision la lo s else bit (e_ch s) j)" for j
    using b low by (rule next_ch_bits)
  have "decode_top ?c ?b d = decode_top (e_ch s) ?b d"
    using b by (intro decode_top_cong) (auto simp: bits)
  then have box': "enc_box ?s' = decode_top ?c (Suc ?b) d"
    using box by (simp add: body_box decode_bit_narrow bits)
  have bounds': "e_minLat ?s' \<le> la \<and> la \<le> e_maxLat ?s' \<and> e_minLng ?s' \<le> lo \<and> lo \<le> e_maxLng ?s'"
    using bounds by (rule body_bounds)
  show ?thesis
  proof (cases "?b = 4")
    case True
    have ch: "charAt BASE32 ?c = [BASE32 ! ?c]"
      using c' by (simp add: charAt_def length_BASE32)
    have idx: "indexOf BASE32 (BASE32 ! ?c) = Some ?c"
      using c' by (intro indexOf_nth distinct_BASE32) (simp add: length_BASE32)
    have "decode_loop (e_hash ?s') dec_init = Inr (decode_bits ?c 5 d)"
      using True d by (simp add: body_hash ch decode_loop_append idx)
    moreover have "enc_box ?s' = decode_bits ?c 5 d"
      using box' True by (simp add: decode_bits_5 eval_nat_numeral)
    moreover have "set (e_hash ?s') \<subseteq> set BASE32"
      using hs c' True by (simp add: body_hash ch length_BASE32)
    ultimately show ?thesis
      using True bounds' unfolding encode_inv_def by (simp add: body_bit body_ch)
  next
    case False
    have "\<forall>j. j < 5 - Suc ?b \<longrightarrow> \<not> bit ?c j"
      using low b by (auto simp: bits)
    then show ?thesis
      using False b c' hs d box' bounds' unfolding encode_inv_def
      by (simp add: body_bit body_ch body_hash)
  qed
qed

lemma encode_inv_init:
  "- 90 \<le> la \<Longrightarrow> la \<le> 90 \<Longrightarrow> - 180 \<le> lo \<Longrightarrow> lo \<le> 180 \<Longrightarrow> encode_inv la lo enc_init"
  by (simp add: encode_inv_def enc_init_def enc_box_def dec_init_def)

lemma body_length:
  assumes "encode_inv la lo s"
  shows "length (e_hash (encode_body la lo s)) =
         (if e_bit s = 4 then Suc (length (e_hash s)) else length (e_hash s))"
proof -
  from assms have "enc_next_ch la lo s < 32"
    by (auto simp: encode_inv_def intro: next_ch_less)
  then show ?thesis
    by (simp add: body_hash charAt_def length_BASE32)
qed

lemma encode_loop_returns:
  assumes "encode_inv la lo s" and "length (e_hash s) < p \<or> e_bit s = 0"
  shows "\<exists>s'. encode_loop la lo p s = Some (e_hash s') \<and> encode_inv la lo s' \<and>
              e_bit s' = 0 \<and> length (e_hash s') = max p (length (e_hash s))"
  using assms
proof (induction "5 * (p - length (e_hash s)) - e_bit s" arbitrary: s rule: less_induct)
  case less
  show ?case
  proof (cases "length (e_hash s) < p")
    case False
    with less.prems have "e_bit s = 0" by simp
    moreover have "encode_loop la lo p s = Some (e_hash s)"
      using False by (subst encode_loop.simps) simp
    ultimately show ?thesis
      using less.prems(1) False by (intro exI [of _ s]) (simp add: max_def)
  next
    case True
    let ?t = "encode_body la lo s"
    have inv: "encode_inv la lo ?t"
      using less.prems(1) by (rule encode_inv_body)
    have b: "e_bit s < 5"
      using less.prems(1) by (simp add: encode_inv_def)
    have len: "length (e_hash ?t) = (if e_bit s = 4 then Suc (length (e_hash s)) else length (e_hash s))"
      using less.prems(1) by (rule body_length)
    have dec: "5 * (p - length (e_hash ?t)) - e_bit ?t < 5 * (p - length (e_hash s)) - e_bit s"
      using True b by (auto simp: len body_bit)
    have pre: "length (e_hash ?t) < p \<or> e_bit ?t = 0"
      using True by (auto simp: len body_bit)
    from less.hyps [OF dec inv pre] obtain s' where
      s': "encode_loop la lo p ?t = Some (e_hash s')" "encode_inv la lo s'" "e_bit s' = 0"
          "length (e_hash s') = max p (length (e_hash ?t))"
      by blast
    have "encode_loop la lo p s = encode_loop la lo p ?t"
      using True by (subst encode_loop.simps) simp
    moreover have "max p (length (e_hash ?t)) = max p (length (e_hash s))"
      using True by (auto simp: len)
    ultimately show ?thesis
      using s' by (intro exI [of _ s']) simp
  qed
qed

lemma decode_of_final:
  assumes "encode_inv la lo s" and "e_bit s = 0"
  shows "decodeGeohash (e_hash s) = Inr (decode_result (enc_box s))"
proof -
  from assms obtain d where "decode_loop (e_hash s) dec_init = Inr d" "enc_box s = d"
    and "set (e_hash s) \<subseteq> set BASE32"
    by (auto simp: encode_inv_def)
  then show ?thesis
    by (simp add: decodeGeohash_def toLowerCase_BASE32)
qed

subsection \<open>The arithmetic of the two loops is exact in doubles\<close>

text \<open>
  Up to precision 9 the encoder runs its body 45 times at most and the decoder reads 45
  bits at most. Every number either loop computes on the way is exact in a double, so
  the doubles of the source and the rationals of this model go through the same values.
\<close>

lemma grid_Suc: "grid h x \<Longrightarrow> grid (Suc h) x"
proof -
  assume "grid h x"
  then obtain k :: int where "x = of_int k * 45 / 2 ^ h" by (auto simp: grid_def)
  then have "x = of_int (2 * k) * 45 / 2 ^ Suc h" by simp
  then show ?thesis unfolding grid_def by blast
qed

lemma grid_add: "grid h x \<Longrightarrow> grid h y \<Longrightarrow> grid h (x + y)"
proof -
  assume "grid h x" "grid h y"
  then obtain k l :: int where "x = of_int k * 45 / 2 ^ h" "y = of_int l * 45 / 2 ^ h"
    by (auto simp: grid_def)
  then have "x + y = of_int (k + l) * 45 / 2 ^ h"
    by (simp add: field_simps)
  then show ?thesis unfolding grid_def by blast
qed

lemma grid_diff: "grid h x \<Longrightarrow> grid h y \<Longrightarrow> grid h (x - y)"
proof -
  assume "grid h x" "grid h y"
  then obtain k l :: int where "x = of_int k * 45 / 2 ^ h" "y = of_int l * 45 / 2 ^ h"
    by (auto simp: grid_def)
  then have "x - y = of_int (k - l) * 45 / 2 ^ h"
    by (simp add: field_simps)
  then show ?thesis unfolding grid_def by blast
qed

lemma grid_half: "grid h x \<Longrightarrow> grid (Suc h) (x / 2)"
  by (auto simp: grid_def)

lemma grid_exact:
  assumes "grid h x" and "h \<le> 24" and "\<bar>x\<bar> \<le> 360"
  shows "double_exact x"
proof -
  from assms(1) obtain k :: int where x: "x = of_int k * 45 / 2 ^ h"
    by (auto simp: grid_def)
  have "\<bar>of_int (k * 45) :: rat\<bar> = \<bar>x\<bar> * 2 ^ h"
    by (simp add: x abs_mult)
  also have "\<dots> \<le> 360 * 2 ^ h"
    using assms(3) by (simp add: mult_right_mono)
  also have "\<dots> \<le> 360 * 2 ^ 24"
  proof -
    have "(2::rat) ^ h \<le> 2 ^ 24"
      using assms(2) by (intro power_increasing) auto
    then show ?thesis by simp
  qed
  also have "\<dots> < 2 ^ 53" by simp
  finally have "(of_int \<bar>k * 45\<bar> :: rat) < of_int (2 ^ 53)"
    by simp
  then have "\<bar>k * 45\<bar> < 2 ^ 53"
    by (simp only: of_int_less_iff)
  moreover have "x = of_int (k * 45) / 2 ^ h"
    by (simp add: x)
  moreover have "h \<le> 1074"
    using assms(2) by simp
  ultimately show ?thesis
    unfolding double_exact_def by blast
qed

lemma cell_inv_init: "cell_inv 0 dec_init"
proof -
  have "grid 0 (- 180)" "grid 0 180" "grid 0 (- 90)" "grid 0 90"
    unfolding grid_def
    by (rule exI [of _ "- 4"], simp, rule exI [of _ 4], simp,
        rule exI [of _ "- 2"], simp, rule exI [of _ 2], simp)
  then show ?thesis
    by (simp add: cell_inv_def dec_init_def)
qed

lemma cell_inv_narrow:
  assumes "cell_inv n d"
  shows "cell_inv (Suc n) (narrow v d)"
proof (cases "even n")
  case True
  then have e: "(Suc n + 1) div 2 = Suc ((n + 1) div 2)" "Suc n div 2 = n div 2"
    by (auto elim!: evenE)
  from assms True have
    g: "grid ((n + 1) div 2) (d_minLng d)" "grid ((n + 1) div 2) (d_maxLng d)"
       "grid (n div 2) (d_minLat d)" "grid (n div 2) (d_maxLat d)"
    and b: "- 180 \<le> d_minLng d" "d_minLng d \<le> d_maxLng d" "d_maxLng d \<le> 180"
       "- 90 \<le> d_minLat d" "d_minLat d \<le> d_maxLat d" "d_maxLat d \<le> 90"
    and l: "d_isLng d"
    by (simp_all add: cell_inv_def)
  have "grid (Suc ((n + 1) div 2)) ((d_minLng d + d_maxLng d) / 2)"
    using g by (intro grid_half grid_add)
  with g b l True show ?thesis
    unfolding cell_inv_def e by (auto simp: narrow_def grid_Suc)
next
  case False
  then have e: "(Suc n + 1) div 2 = (n + 1) div 2" "Suc n div 2 = Suc (n div 2)"
    by (auto elim!: oddE)
  from assms False have
    g: "grid ((n + 1) div 2) (d_minLng d)" "grid ((n + 1) div 2) (d_maxLng d)"
       "grid (n div 2) (d_minLat d)" "grid (n div 2) (d_maxLat d)"
    and b: "- 180 \<le> d_minLng d" "d_minLng d \<le> d_maxLng d" "d_maxLng d \<le> 180"
       "- 90 \<le> d_minLat d" "d_minLat d \<le> d_maxLat d" "d_maxLat d \<le> 90"
    and l: "\<not> d_isLng d"
    by (simp_all add: cell_inv_def)
  have "grid (Suc (n div 2)) ((d_minLat d + d_maxLat d) / 2)"
    using g by (intro grid_half grid_add)
  with g b l False show ?thesis
    unfolding cell_inv_def e by (auto simp: narrow_def grid_Suc)
qed

lemma cell_inv_exact:
  assumes "cell_inv n d" and "n \<le> 45"
  shows "cell_exact d"
proof -
  let ?h = "(n + 1) div 2" and ?v = "n div 2"
  from assms(1) have
    g: "grid ?h (d_minLng d)" "grid ?h (d_maxLng d)" "grid ?v (d_minLat d)" "grid ?v (d_maxLat d)"
    and b: "- 180 \<le> d_minLng d" "d_minLng d \<le> d_maxLng d" "d_maxLng d \<le> 180"
       "- 90 \<le> d_minLat d" "d_minLat d \<le> d_maxLat d" "d_maxLat d \<le> 90"
    by (simp_all add: cell_inv_def)
  have h: "?h \<le> 24" "Suc ?h \<le> 24" "?v \<le> 24" "Suc ?v \<le> 24"
    using assms(2) by simp_all
  have "double_exact (d_minLng d)" "double_exact (d_maxLng d)"
    using g(1,2) h(1) b by (auto intro!: grid_exact)
  moreover have "double_exact (d_minLat d)" "double_exact (d_maxLat d)"
    using g(3,4) h(3) b by (auto intro!: grid_exact)
  moreover have "double_exact (d_minLng d + d_maxLng d)"
    using h(1) b by (intro grid_exact [of ?h] grid_add g) auto
  moreover have "double_exact ((d_minLng d + d_maxLng d) / 2)"
    using h(2) b by (intro grid_exact [of "Suc ?h"] grid_half grid_add g) auto
  moreover have "double_exact (d_minLat d + d_maxLat d)"
    using h(3) b by (intro grid_exact [of ?v] grid_add g) auto
  moreover have "double_exact ((d_minLat d + d_maxLat d) / 2)"
    using h(4) b by (intro grid_exact [of "Suc ?v"] grid_half grid_add g) auto
  moreover have "double_exact (d_maxLng d - d_minLng d)"
    using h(1) b by (intro grid_exact [of ?h] grid_diff g) auto
  moreover have "double_exact ((d_maxLng d - d_minLng d) / 2)"
    using h(2) b by (intro grid_exact [of "Suc ?h"] grid_half grid_diff g) auto
  moreover have "double_exact (d_maxLat d - d_minLat d)"
    using h(3) b by (intro grid_exact [of ?v] grid_diff g) auto
  moreover have "double_exact ((d_maxLat d - d_minLat d) / 2)"
    using h(4) b by (intro grid_exact [of "Suc ?v"] grid_half grid_diff g) auto
  ultimately show ?thesis
    unfolding cell_exact_def by blast
qed

lemma enc_box_init: "enc_box enc_init = dec_init"
  by (simp add: enc_box_def enc_init_def dec_init_def)

lemma encode_iterates_inv:
  "cell_inv n (enc_box ((encode_body la lo ^^ n) enc_init))"
proof (induction n)
  case 0
  then show ?case by (simp add: enc_box_init cell_inv_init)
next
  case (Suc n)
  then show ?case by (simp add: body_box cell_inv_narrow)
qed

lemma decode_top_inv: "cell_inv n d \<Longrightarrow> cell_inv (n + j) (decode_top idx j d)"
  by (induction j) (simp_all add: decode_bit_narrow cell_inv_narrow)

lemma decode_loop_inv:
  "cell_inv n d \<Longrightarrow> decode_loop cs d = Inr d' \<Longrightarrow> cell_inv (n + 5 * length cs) d'"
proof (induction cs arbitrary: n d)
  case Nil
  then show ?case by simp
next
  case (Cons c cs)
  from Cons.prems(2) obtain idx where
    d': "decode_loop cs (decode_bits idx 5 d) = Inr d'"
    by (auto split: option.splits)
  have "cell_inv (n + 5) (decode_bits idx 5 d)"
    using Cons.prems(1) by (simp add: decode_bits_5 decode_top_inv)
  from Cons.IH [OF this d'] show ?case
    by (simp add: algebra_simps)
qed

lemma encodeGeohash_exact_in_doubles:
  "n \<le> 45 \<Longrightarrow> cell_exact (enc_box ((encode_body la lo ^^ n) enc_init))"
  using encode_iterates_inv by (rule cell_inv_exact)

lemma decodeGeohash_exact_in_doubles:
  assumes "length cs \<le> 8" and "decode_loop cs dec_init = Inr d" and "j \<le> 5"
  shows "cell_exact (decode_top idx j d)"
proof -
  have "cell_inv (0 + 5 * length cs) d"
    using cell_inv_init assms(2) by (rule decode_loop_inv)
  then have "cell_inv (5 * length cs + j) (decode_top idx j d)"
    using decode_top_inv by simp
  moreover have "5 * length cs + j \<le> 45"
    using assms(1,3) by simp
  ultimately show ?thesis
    by (rule cell_inv_exact)
qed

text \<open>The loop of \<open>encodeGeohash\<close> returns after exactly five passes per character.\<close>

lemma encode_loop_iterates:
  assumes "encode_inv la lo s" and "length (e_hash s) < p \<or> e_bit s = 0"
  shows "encode_loop la lo p s =
         Some (e_hash ((encode_body la lo ^^ (5 * (p - length (e_hash s)) - e_bit s)) s))"
  using assms
proof (induction "5 * (p - length (e_hash s)) - e_bit s" arbitrary: s rule: less_induct)
  case less
  show ?case
  proof (cases "length (e_hash s) < p")
    case False
    then show ?thesis
      by (subst encode_loop.simps) simp
  next
    case True
    let ?t = "encode_body la lo s"
    have inv: "encode_inv la lo ?t"
      using less.prems(1) by (rule encode_inv_body)
    have b: "e_bit s < 5"
      using less.prems(1) by (simp add: encode_inv_def)
    have len: "length (e_hash ?t) = (if e_bit s = 4 then Suc (length (e_hash s)) else length (e_hash s))"
      using less.prems(1) by (rule body_length)
    have cnt: "Suc (5 * (p - length (e_hash ?t)) - e_bit ?t) = 5 * (p - length (e_hash s)) - e_bit s"
      using True b by (auto simp: len body_bit)
    then have dec: "5 * (p - length (e_hash ?t)) - e_bit ?t < 5 * (p - length (e_hash s)) - e_bit s"
      by simp
    have pre: "length (e_hash ?t) < p \<or> e_bit ?t = 0"
      using True by (auto simp: len body_bit)
    have "encode_loop la lo p s = encode_loop la lo p ?t"
      using True by (subst encode_loop.simps) simp
    also have "\<dots> = Some (e_hash ((encode_body la lo ^^ (5 * (p - length (e_hash ?t)) - e_bit ?t)) ?t))"
      using dec inv pre by (rule less.hyps)
    also have "(encode_body la lo ^^ (5 * (p - length (e_hash ?t)) - e_bit ?t)) ?t =
               (encode_body la lo ^^ Suc (5 * (p - length (e_hash ?t)) - e_bit ?t)) s"
      by (simp only: funpow_Suc_right o_apply)
    finally show ?thesis
      by (simp only: cnt)
  qed
qed

lemma encodeGeohash_iterates:
  assumes "- 90 \<le> la" "la \<le> 90" "- 180 \<le> lo" "lo \<le> 180"
  shows "encodeGeohash la lo p = Some (e_hash ((encode_body la lo ^^ (5 * p)) enc_init))"
proof -
  have "encode_inv la lo enc_init"
    using assms by (rule encode_inv_init)
  moreover have "length (e_hash enc_init) < p \<or> e_bit enc_init = 0"
    by (simp add: enc_init_def)
  ultimately have "encode_loop la lo p enc_init =
      Some (e_hash ((encode_body la lo ^^ (5 * (p - length (e_hash enc_init)) - e_bit enc_init)) enc_init))"
    by (rule encode_loop_iterates)
  then show ?thesis
    by (simp add: encodeGeohash_def enc_init_def)
qed

text \<open>
  Claim C7. For a latitude in [-90, 90], a longitude in [-180, 180] and a precision from
  1 to 9, \<open>encodeGeohash\<close> returns a string of that length, \<open>decodeGeohash\<close> accepts
  it, and the decoded centre is within \<open>latError\<close> of the latitude and within
  \<open>lngError\<close> of the longitude. At these precisions the rational arithmetic of the
  model is the arithmetic of the source's doubles (the subsection above). The witness
  shows the round trip changing the coordinate: it is lossy.
\<close>

theorem geohash_roundtrip_within_error:
  assumes "- 90 \<le> la" "la \<le> 90" "- 180 \<le> lo" "lo \<le> 180" "1 \<le> p" "p \<le> 9"
  shows "\<exists>h r. encodeGeohash la lo p = Some h \<and> length h = p \<and>
               decodeGeohash h = Inr r \<and>
               \<bar>la - lat r\<bar> \<le> latError r \<and> \<bar>lo - lng r\<bar> \<le> lngError r"
proof -
  have "encode_inv la lo enc_init"
    using assms(1-4) by (rule encode_inv_init)
  moreover have "length (e_hash enc_init) < p \<or> e_bit enc_init = 0"
    by (simp add: enc_init_def)
  ultimately obtain s where
    s: "encode_loop la lo p enc_init = Some (e_hash s)" "encode_inv la lo s" "e_bit s = 0"
       "length (e_hash s) = max p (length (e_hash enc_init))"
    using encode_loop_returns by blast
  have dec: "decodeGeohash (e_hash s) = Inr (decode_result (enc_box s))"
    using s(2,3) by (rule decode_of_final)
  have bounds: "e_minLat s \<le> la" "la \<le> e_maxLat s" "e_minLng s \<le> lo" "lo \<le> e_maxLng s"
    using s(2) by (simp_all add: encode_inv_def)
  have "\<bar>la - lat (decode_result (enc_box s))\<bar> \<le> latError (decode_result (enc_box s))"
    using bounds by (simp add: decode_result_def enc_box_def abs_le_iff field_simps)
  moreover have "\<bar>lo - lng (decode_result (enc_box s))\<bar> \<le> lngError (decode_result (enc_box s))"
    using bounds by (simp add: decode_result_def enc_box_def abs_le_iff field_simps)
  moreover have "length (e_hash s) = p"
    using s(4) by (simp add: enc_init_def)
  ultimately show ?thesis
    using s(1) dec unfolding encodeGeohash_def by blast
qed

theorem geohash_roundtrip_witness:
  "encodeGeohash (- 1) 37 2 = Some ''kz'' \<and>
   decodeGeohash ''kz'' =
     Inr \<lparr>lat = - (45 / 16), lng = 315 / 8, latError = 45 / 16, lngError = 45 / 8\<rparr> \<and>
   \<bar>- 1 - (- (45 / 16))\<bar> \<le> (45 / 16 :: rat) \<and> \<bar>37 - 315 / 8\<bar> \<le> (45 / 8 :: rat) \<and>
   - 1 \<noteq> (- (45 / 16) :: rat)"
proof -
  have enc: "encodeGeohash (- 1) 37 2 = Some ''kz''"
    by code_simp
  have dec: "decodeGeohash ''kz'' =
     Inr \<lparr>lat = - (45 / 16), lng = 315 / 8, latError = 45 / 16, lngError = 45 / 8\<rparr>"
    by code_simp
  from geohash_roundtrip_within_error [of "- 1" 37 2]
  obtain h r where "encodeGeohash (- 1) 37 2 = Some h"
    "decodeGeohash h = Inr r" "\<bar>- 1 - lat r\<bar> \<le> latError r" "\<bar>37 - lng r\<bar> \<le> lngError r"
    by auto
  with enc dec have "\<bar>- 1 - (- (45 / 16))\<bar> \<le> (45 / 16 :: rat) \<and> \<bar>37 - 315 / 8\<bar> \<le> (45 / 8 :: rat)"
    by simp
  with enc dec show ?thesis by simp
qed

section \<open>Properties of the fraud detection engine\<close>

lemma speed_step_mono: "snd acc \<le> snd (speed_step R prev_t curr_t acc)"
  by (simp add: speed_step_def Let_def)

lemma speed_loop_mono: "snd acc \<le> snd (speed_loop R sorted_t i acc)"
proof (induction R sorted_t i acc rule: speed_loop.induct)
  case (1 R sorted_t i acc)
  show ?case
  proof (cases "i < length sorted_t")
    case False
    then show ?thesis by (subst speed_loop.simps) simp
  next
    case True
    have "snd acc \<le> snd (speed_step R (sorted_t ! (i - 1)) (sorted_t ! i) acc)"
      by (rule speed_step_mono)
    also have "\<dots> \<le> snd (speed_loop R sorted_t (i + 1) (speed_step R (sorted_t ! (i - 1)) (sorted_t ! i) acc))"
      using True by (rule "1.IH")
    finally show ?thesis
      using True by (subst speed_loop.simps) simp
  qed
qed

lemma accuracy_check_mono: "snd acc \<le> snd (accuracy_check sorted_t acc)"
  by (simp add: accuracy_check_def Let_def)

lemma perfect_check_mono: "snd acc \<le> snd (perfect_check sorted_t acc)"
  by (simp add: perfect_check_def Let_def)

lemma drift_check_mono: "snd acc \<le> snd (drift_check now sorted_t acc)"
  by (simp add: drift_check_def Let_def)

lemma altitude_check_mono: "snd acc \<le> snd (altitude_check sorted_t acc)"
  by (simp add: altitude_check_def Let_def)

lemma dwell_check_mono: "snd acc \<le> snd (dwell_check R campaign sorted_t acc)"
  by (simp add: dwell_check_def Let_def)

lemma analyzeTelemetry_range:
  "0 \<le> snd (analyzeTelemetry R now tel campaign uid) \<and>
   snd (analyzeTelemetry R now tel campaign uid) \<le> 100"
proof (cases "length tel < 2")
  case True
  then show ?thesis by (simp add: analyzeTelemetry_def)
next
  case False
  let ?s = "sort_key timestamp tel"
  let ?a1 = "speed_loop R ?s 1 ([], 0)"
  let ?a2 = "accuracy_check ?s ?a1"
  let ?a3 = "perfect_check ?s ?a2"
  let ?a4 = "drift_check now ?s ?a3"
  let ?a5 = "altitude_check ?s ?a4"
  let ?a6 = "dwell_check R campaign ?s ?a5"
  have "0 \<le> snd ?a1"
    using speed_loop_mono [of "([], 0)" R ?s 1] by simp
  also have "\<dots> \<le> snd ?a2" by (rule accuracy_check_mono)
  also have "\<dots> \<le> snd ?a3" by (rule perfect_check_mono)
  also have "\<dots> \<le> snd ?a4" by (rule drift_check_mono)
  also have "\<dots> \<le> snd ?a5" by (rule altitude_check_mono)
  also have "\<dots> \<le> snd ?a6" by (rule dwell_check_mono)
  finally have "0 \<le> snd ?a6" .
  then show ?thesis
    using False by (simp add: analyzeTelemetry_def Let_def)
qed

lemma speed_step_sum: "score_is_sum acc \<Longrightarrow> score_is_sum (speed_step R a b acc)"
  by (simp add: speed_step_def score_is_sum_def spec_increment_def Let_def)

lemma speed_loop_sum: "score_is_sum acc \<Longrightarrow> score_is_sum (speed_loop R sorted_t i acc)"
proof (induction R sorted_t i acc rule: speed_loop.induct)
  case (1 R sorted_t i acc)
  show ?case
  proof (cases "i < length sorted_t")
    case False
    then show ?thesis
      using "1.prems" by (subst speed_loop.simps) simp
  next
    case True
    have "score_is_sum (speed_step R (sorted_t ! (i - 1)) (sorted_t ! i) acc)"
      using "1.prems" by (rule speed_step_sum)
    with True have "score_is_sum (speed_loop R sorted_t (i + 1)
        (speed_step R (sorted_t ! (i - 1)) (sorted_t ! i) acc))"
      by (rule "1.IH")
    then show ?thesis
      using True by (subst speed_loop.simps) simp
  qed
qed

lemma accuracy_check_sum: "score_is_sum acc \<Longrightarrow> score_is_sum (accuracy_check sorted_t acc)"
  by (simp add: accuracy_check_def score_is_sum_def spec_increment_def Let_def)

lemma perfect_check_sum: "score_is_sum acc \<Longrightarrow> score_is_sum (perfect_check sorted_t acc)"
  by (simp add: perfect_check_def score_is_sum_def spec_increment_def Let_def)

lemma drift_check_sum: "score_is_sum acc \<Longrightarrow> score_is_sum (drift_check now sorted_t acc)"
  by (simp add: drift_check_def score_is_sum_def spec_increment_def Let_def)

lemma altitude_check_sum: "score_is_sum acc \<Longrightarrow> score_is_sum (altitude_check sorted_t acc)"
  by (simp add: altitude_check_def score_is_sum_def spec_increment_def Let_def)

lemma dwell_check_sum: "score_is_sum acc \<Longrightarrow> score_is_sum (dwell_check R campaign sorted_t acc)"
  by (simp add: dwell_check_def score_is_sum_def spec_increment_def Let_def)

lemma analyzeTelemetry_sum:
  "snd (analyzeTelemetry R now tel campaign uid) =
   min (sum_list (map spec_increment (fst (analyzeTelemetry R now tel campaign uid)))) 100"
proof (cases "length tel < 2")
  case True
  then show ?thesis
    by (simp add: analyzeTelemetry_def spec_increment_def)
next
  case False
  let ?s = "sort_key timestamp tel"
  let ?a6 = "dwell_check R campaign ?s (altitude_check ?s (drift_check now ?s
              (perfect_check ?s (accuracy_check ?s (speed_loop R ?s 1 ([], 0))))))"
  have "score_is_sum ([], 0)"
    by (simp add: score_is_sum_def)
  then have "score_is_sum ?a6"
    by (intro dwell_check_sum altitude_check_sum drift_check_sum perfect_check_sum
        accuracy_check_sum speed_loop_sum)
  then show ?thesis
    using False by (simp add: analyzeTelemetry_def Let_def score_is_sum_def)
qed

text \<open>
  Claim C5, as amended. With fewer than two samples \<open>analyzeTelemetry\<close> returns the
  score 40 and exactly one flag, a \<open>GPS_SPOOF\<close> flag of severity HIGH with the message
  of a possible single-point spoof; the result does not depend on the runtime, the clock,
  the campaign or the samples, so no other check has run.
\<close>

theorem analyzeTelemetry_insufficient_data:
  assumes "length tel < 2"
  shows "analyzeTelemetry R now tel campaign uid =
    ([\<lparr>flag_type = GPS_SPOOF, severity = HIGH,
       message = ''Insufficient telemetry data - possible single-point spoof'',
       flag_data = None\<rparr>], 40)"
  using assms by (simp add: analyzeTelemetry_def)

theorem analyzeTelemetry_insufficient_witness:
  "length [reading 1700000000000] < 2 \<and>
   analyzeTelemetry example_runtime 1700000000000 [reading 1700000000000] example_campaign ''u_1'' =
    ([\<lparr>flag_type = GPS_SPOOF, severity = HIGH,
       message = ''Insufficient telemetry data - possible single-point spoof'',
       flag_data = None\<rparr>], 40)"
  using analyzeTelemetry_insufficient_data
    [of "[reading 1700000000000]" example_runtime 1700000000000 example_campaign "''u_1''"]
  by simp

text \<open>
  The claim C5 as it is written asks for a severity equivalent to CRITICAL; on one
  sample the flag's severity is HIGH, a different severity.
\<close>

theorem analyzeTelemetry_insufficient_severity_counterexample:
  "map severity (fst (analyzeTelemetry example_runtime 1700000000000 [reading 1700000000000]
      example_campaign ''u_1'')) = [HIGH] \<and> HIGH \<noteq> CRITICAL"
  by (simp add: analyzeTelemetry_def)

section \<open>A run of two calls\<close>

text \<open>
  The examples below share one run: a first call at time 1700000000000 on the empty
  guard, with two readings 20 seconds apart at the centre of the campaign, which is
  accepted; and a second call on the state the first one left.
\<close>

lemma delete_expired_le: "delete_expired now m \<subseteq>\<^sub>m m"
  by (auto simp: delete_expired_def map_le_def split: option.splits if_splits)

lemma cleanup_le:
  "usedSessionIds (cleanupExpiredSessions now st) \<subseteq>\<^sub>m usedSessionIds st \<and>
   recentRedemptions (cleanupExpiredSessions now st) \<subseteq>\<^sub>m recentRedemptions st"
  by (simp add: cleanupExpiredSessions_def delete_expired_le)

lemma cleanup_used_iff:
  "usedSessionIds (cleanupExpiredSessions now st) k = Some t \<longleftrightarrow>
   usedSessionIds st k = Some t \<and> (now - lastCleanup st < CLEANUP_INTERVAL \<or> now - t \<le> SESSION_TTL)"
  by (auto simp: cleanupExpiredSessions_def delete_expired_def split: option.splits)

lemma cleanup_recent_iff:
  "recentRedemptions (cleanupExpiredSessions now st) k = Some t \<longleftrightarrow>
   recentRedemptions st k = Some t \<and> (now - lastCleanup st < CLEANUP_INTERVAL \<or> now - t \<le> SESSION_TTL)"
  by (auto simp: cleanupExpiredSessions_def delete_expired_def split: option.splits)

lemma delete_expired_empty: "delete_expired now Map.empty = Map.empty"
  by (simp add: delete_expired_def)

lemma example_distance:
  "getDistance example_runtime la lo la lo = 0"
  by (simp add: getDistance_def example_runtime_def)

lemma speed_loop_two:
  "speed_loop R [a, b] 1 acc = speed_step R a b acc"
proof -
  have "speed_loop R [a, b] (Suc (Suc 0)) acc' = acc'" for acc'
    by (subst speed_loop.simps) simp
  then show ?thesis
    by (subst speed_loop.simps) simp
qed

lemma example_speed_step:
  "speed_step example_runtime (reading (t - 20000)) (reading t) acc = acc"
  by (simp add: speed_step_def reading_def example_distance)

lemma example_sorted:
  "sort_key timestamp [reading (t - 20000), reading t] = [reading (t - 20000), reading t]"
  by (simp add: reading_def)

lemma example_accuracy:
  "accuracy_check [reading (t - 20000), reading t] acc = acc"
  by (simp add: accuracy_check_def reading_def)

lemma example_perfect:
  "perfect_check [reading (t - 20000), reading t] acc = acc"
  by (simp add: perfect_check_def)

lemma example_drift:
  "drift_check now [reading (of_int now - 20000), reading (of_int now)] acc = acc"
  by (simp add: drift_check_def reading_def)

lemma example_altitude:
  "altitude_check [reading (t - 20000), reading t] acc = acc"
  by (simp add: altitude_check_def reading_def List.map_filter_def)

lemma example_dwell:
  "dwell_check example_runtime example_campaign [reading (t - 20000), reading t] acc = acc"
proof -
  have "getDistance example_runtime (latitude (reading x)) (longitude (reading x))
          (coord_lat (coordinates example_campaign)) (coord_lng (coordinates example_campaign)) = 0" for x
    by (simp add: reading_def example_campaign_def example_distance)
  then show ?thesis
    by (simp add: dwell_check_def Let_def)
      (simp add: example_campaign_def reading_def)
qed

lemma example_analysis:
  "analyzeTelemetry example_runtime now (telemetry (example_request sid uid now)) example_campaign u = ([], 0)"
proof -
  have tel: "telemetry (example_request sid uid now) = [reading (of_int now - 20000), reading (of_int now)]"
    by (simp add: example_request_def)
  show ?thesis
    by (simp only: analyzeTelemetry_def tel Let_def example_sorted speed_loop_two
        example_speed_step example_accuracy example_perfect example_drift example_altitude
        example_dwell) simp
qed

lemma verifyRedemption_accepts:
  assumes "usedSessionIds (cleanupExpiredSessions now st) (sessionId req) = None"
    and "recentRedemptions (cleanupExpiredSessions now st) (userId req @ ''-'' @ campaignId req) = None"
    and "businessHours campaign = None"
    and "analyzeTelemetry R now (telemetry req) campaign (userId req) = (flags, score)"
    and "score < 70"
  shows "success (fst (verifyRedemption R now rnd req campaign st)) \<and>
         riskScore (fst (verifyRedemption R now rnd req campaign st)) = score \<and>
         snd (verifyRedemption R now rnd req campaign st) =
           (cleanupExpiredSessions now st)
             \<lparr>usedSessionIds := (usedSessionIds (cleanupExpiredSessions now st))(sessionId req \<mapsto> now),
              recentRedemptions := (recentRedemptions (cleanupExpiredSessions now st))
                                     (userId req @ ''-'' @ campaignId req \<mapsto> now)\<rparr>"
  using assms by (simp add: verifyRedemption_def Let_def case_prod_beta)

lemma first_call_accepted:
  "success (fst first_call) \<and> riskScore (fst first_call) = 0 \<and> snd first_call = after_first_call"
proof -
  let ?req = "example_request ''s1'' ''u1'' 1700000000000"
  have c: "cleanupExpiredSessions 1700000000000 empty_guard =
           \<lparr>usedSessionIds = Map.empty, recentRedemptions = Map.empty, lastCleanup = 1700000000000\<rparr>"
    by (simp add: cleanupExpiredSessions_def empty_guard_def CLEANUP_INTERVAL_def delete_expired_empty)
  have 1: "usedSessionIds (cleanupExpiredSessions 1700000000000 empty_guard) (sessionId ?req) = None"
    by (simp add: c)
  have 2: "recentRedemptions (cleanupExpiredSessions 1700000000000 empty_guard)
             (userId ?req @ ''-'' @ campaignId ?req) = None"
    by (simp add: c)
  have 3: "businessHours example_campaign = None"
    by (simp add: example_campaign_def)
  have 4: "analyzeTelemetry example_runtime 1700000000000 (telemetry ?req) example_campaign (userId ?req) = ([], 0)"
    by (rule example_analysis)
  have 5: "(0::int) < 70" by simp
  from verifyRedemption_accepts [OF 1 2 3 4 5, of "''0a''"]
  show ?thesis
    by (simp add: first_call_def c after_first_call_def example_request_def)
qed

lemma vr_replay:
  assumes "usedSessionIds st (sessionId req) = Some t"
    and "now - lastCleanup st < CLEANUP_INTERVAL \<or> now - t \<le> SESSION_TTL"
  shows "verifyRedemption R now rnd req campaign st =
    (\<lparr>success = False, redemptionId = None, totpCode = None, expiresAt = None,
      error = Some ''Session already used - possible replay attack'',
      fraudFlags = Some [\<lparr>flag_type = REPLAY_ATTACK, severity = CRITICAL,
                          message = ''Duplicate session ID detected'', flag_data = None\<rparr>],
      riskScore = 100\<rparr>, cleanupExpiredSessions now st)"
proof -
  have "usedSessionIds (cleanupExpiredSessions now st) (sessionId req) = Some t"
    using assms by (simp add: cleanup_used_iff)
  then show ?thesis
    by (simp add: verifyRedemption_def Let_def)
qed

lemma after_first_call_swept:
  "cleanupExpiredSessions 1700090000000 after_first_call =
    \<lparr>usedSessionIds = Map.empty, recentRedemptions = Map.empty, lastCleanup = 1700090000000\<rparr>"
  by (auto simp: cleanupExpiredSessions_def after_first_call_def CLEANUP_INTERVAL_def
      SESSION_TTL_def delete_expired_def)

lemma after_first_call_kept:
  "cleanupExpiredSessions 1700003600000 after_first_call =
    after_first_call\<lparr>lastCleanup := 1700003600000\<rparr>"
  by (auto simp: cleanupExpiredSessions_def after_first_call_def CLEANUP_INTERVAL_def
      SESSION_TTL_def delete_expired_def)

section \<open>Properties of the guard and of the orchestrator\<close>

text \<open>
  Claim C2. The score of \<open>analyzeTelemetry\<close> is an integer from 0 to 100, namely the
  sum of the increments of the flags it raised, cut off at 100; and the \<open>riskScore\<close>
  of every result of \<open>verifyRedemption\<close> is an integer from 0 to 100.
\<close>

theorem riskScore_range:
  "0 \<le> snd (analyzeTelemetry R now tel campaign uid) \<and>
   snd (analyzeTelemetry R now tel campaign uid) \<le> 100 \<and>
   snd (analyzeTelemetry R now tel campaign uid) =
     min (sum_list (map spec_increment (fst (analyzeTelemetry R now tel campaign uid)))) 100 \<and>
   0 \<le> riskScore (fst (verifyRedemption R now rnd req campaign st)) \<and>
   riskScore (fst (verifyRedemption R now rnd req campaign st)) \<le> 100"
proof -
  have a: "0 \<le> snd (analyzeTelemetry R now tel campaign uid) \<and>
           snd (analyzeTelemetry R now tel campaign uid) \<le> 100" for tel uid
    by (rule analyzeTelemetry_range)
  from a [of "telemetry req" "userId req"]
  have "0 \<le> riskScore (fst (verifyRedemption R now rnd req campaign st)) \<and>
        riskScore (fst (verifyRedemption R now rnd req campaign st)) \<le> 100"
    by (simp add: verifyRedemption_def Let_def case_prod_beta)
  with a analyzeTelemetry_sum show ?thesis by blast
qed

theorem riskScore_range_witness:
  "snd (analyzeTelemetry example_runtime 1700000000000 [reading 1700000000000] example_campaign ''u1'') = 40 \<and>
   sum_list (map spec_increment
     (fst (analyzeTelemetry example_runtime 1700000000000 [reading 1700000000000] example_campaign ''u1''))) = 40 \<and>
   riskScore (fst first_call) = 0 \<and> (0::int) \<le> 40 \<and> (40::int) \<le> 100"
proof -
  have a: "analyzeTelemetry example_runtime 1700000000000 [reading 1700000000000] example_campaign ''u1'' =
    ([\<lparr>flag_type = GPS_SPOOF, severity = HIGH,
       message = ''Insufficient telemetry data - possible single-point spoof'',
       flag_data = None\<rparr>], 40)"
    by (simp add: analyzeTelemetry_def)
  from riskScore_range [of example_runtime 1700000000000 "[reading 1700000000000]" example_campaign
      "''u1''" "''0a''" "example_request ''s1'' ''u1'' 1700000000000" empty_guard]
    a first_call_accepted
  show ?thesis
    by (simp add: spec_increment_def)
qed

text \<open>
  Claim C1, as amended. When the session identifier of the request is in the session map
  and the opening sweep keeps it (no sweep is due, less than five minutes after the last
  one, or the entry is at most 24 hours old), \<open>verifyRedemption\<close> rejects with
  \<open>success = false\<close>, the score 100 and exactly one CRITICAL \<open>REPLAY_ATTACK\<close> flag,
  whatever the telemetry, the campaign and the runtime are: nothing of the fraud analysis
  enters the result. The guard state is the swept state.
\<close>

theorem verifyRedemption_replay_rejected:
  assumes "usedSessionIds st (sessionId req) = Some t"
    and "now - lastCleanup st < CLEANUP_INTERVAL \<or> now - t \<le> SESSION_TTL"
  shows "verifyRedemption R now rnd req campaign st =
    (\<lparr>success = False, redemptionId = None, totpCode = None, expiresAt = None,
      error = Some ''Session already used - possible replay attack'',
      fraudFlags = Some [\<lparr>flag_type = REPLAY_ATTACK, severity = CRITICAL,
                          message = ''Duplicate session ID detected'', flag_data = None\<rparr>],
      riskScore = 100\<rparr>, cleanupExpiredSessions now st)"
proof -
  have "usedSessionIds (cleanupExpiredSessions now st) (sessionId req) = Some t"
    using assms by (simp add: cleanup_used_iff)
  then show ?thesis
    by (simp add: verifyRedemption_def Let_def)
qed

theorem verifyRedemption_replay_witness:
  "usedSessionIds (snd first_call) ''s1'' = Some 1700000000000 \<and>
   verifyRedemption example_runtime 1700003600000 ''0b''
       (example_request ''s1'' ''u2'' 1700003600000) example_campaign (snd first_call) =
    (\<lparr>success = False, redemptionId = None, totpCode = None, expiresAt = None,
      error = Some ''Session already used - possible replay attack'',
      fraudFlags = Some [\<lparr>flag_type = REPLAY_ATTACK, severity = CRITICAL,
                          message = ''Duplicate session ID detected'', flag_data = None\<rparr>],
      riskScore = 100\<rparr>,
     after_first_call\<lparr>lastCleanup := 1700003600000\<rparr>)"
proof -
  have s: "snd first_call = after_first_call"
    using first_call_accepted by simp
  have 1: "usedSessionIds (snd first_call) (sessionId (example_request ''s1'' ''u2'' 1700003600000)) =
           Some 1700000000000"
    by (simp add: s after_first_call_def example_request_def)
  have 2: "1700003600000 - lastCleanup (snd first_call) < CLEANUP_INTERVAL \<or>
           1700003600000 - 1700000000000 \<le> SESSION_TTL"
    by (simp add: SESSION_TTL_def)
  from verifyRedemption_replay_rejected [OF 1 2, of example_runtime "''0b''" example_campaign] 1
  show ?thesis
    by (simp add: s after_first_call_kept example_request_def)
qed

text \<open>
  The claim C1 as it is written fails 25 hours after the recording call: the first call
  succeeds and records the session \<open>s1\<close>; the second call, with the same session
  identifier, sweeps the entry away first and then succeeds.
\<close>

theorem replay_after_sweep_counterexample:
  "success (fst first_call) \<and>
   usedSessionIds (snd first_call) ''s1'' = Some 1700000000000 \<and>
   success (fst (verifyRedemption example_runtime 1700090000000 ''0b''
     (example_request ''s1'' ''u1'' 1700090000000) example_campaign (snd first_call)))"
proof -
  let ?req = "example_request ''s1'' ''u1'' 1700090000000"
  have 1: "usedSessionIds (cleanupExpiredSessions 1700090000000 after_first_call) (sessionId ?req) = None"
    by (simp add: after_first_call_swept)
  have 2: "recentRedemptions (cleanupExpiredSessions 1700090000000 after_first_call)
             (userId ?req @ ''-'' @ campaignId ?req) = None"
    by (simp add: after_first_call_swept)
  have 3: "businessHours example_campaign = None"
    by (simp add: example_campaign_def)
  have 4: "analyzeTelemetry example_runtime 1700090000000 (telemetry ?req) example_campaign (userId ?req) = ([], 0)"
    by (rule example_analysis)
  have 5: "(0::int) < 70" by simp
  from verifyRedemption_accepts [OF 1 2 3 4 5, of "''0b''"] first_call_accepted
  show ?thesis
    by (simp add: after_first_call_def)
qed

text \<open>
  Claim C4, as amended. When the session identifier of the request is not in the swept
  session map (the replay check runs first), and the pair of user and campaign has a
  redemption recorded at a time other than 0, less than 24 hours before the call,
  \<open>verifyRedemption\<close> rejects with \<open>success = false\<close>, the score 0 and the empty list
  of flags. The guard state is the swept state.
\<close>

theorem verifyRedemption_rate_limited:
  assumes "usedSessionIds (cleanupExpiredSessions now st) (sessionId req) = None"
    and "recentRedemptions st (userId req @ ''-'' @ campaignId req) = Some t"
    and "t \<noteq> 0" and "now - t < 24 * 60 * 60 * 1000"
  shows "verifyRedemption R now rnd req campaign st =
    (\<lparr>success = False, redemptionId = None, totpCode = None, expiresAt = None,
      error = Some ''Already redeemed this campaign in the last 24 hours'',
      fraudFlags = Some [], riskScore = 0\<rparr>, cleanupExpiredSessions now st)"
proof -
  have "now - t \<le> SESSION_TTL"
    using assms(4) by (simp add: SESSION_TTL_def)
  then have "recentRedemptions (cleanupExpiredSessions now st) (userId req @ ''-'' @ campaignId req) = Some t"
    using assms(2) by (simp add: cleanup_recent_iff)
  then show ?thesis
    using assms(1,3,4) by (simp add: verifyRedemption_def Let_def)
qed

theorem verifyRedemption_rate_limited_witness:
  "recentRedemptions (snd first_call) ''u1-c_1'' = Some 1700000000000 \<and>
   verifyRedemption example_runtime 1700003600000 ''0b''
       (example_request ''s2'' ''u1'' 1700003600000) example_campaign (snd first_call) =
    (\<lparr>success = False, redemptionId = None, totpCode = None, expiresAt = None,
      error = Some ''Already redeemed this campaign in the last 24 hours'',
      fraudFlags = Some [], riskScore = 0\<rparr>,
     after_first_call\<lparr>lastCleanup := 1700003600000\<rparr>)"
proof -
  let ?req = "example_request ''s2'' ''u1'' 1700003600000"
  have s: "snd first_call = after_first_call"
    using first_call_accepted by simp
  have 1: "usedSessionIds (cleanupExpiredSessions 1700003600000 (snd first_call)) (sessionId ?req) = None"
    by (simp add: s after_first_call_kept) (simp add: after_first_call_def example_request_def)
  have 2: "recentRedemptions (snd first_call) (userId ?req @ ''-'' @ campaignId ?req) = Some 1700000000000"
    by (simp add: s after_first_call_def example_request_def)
  have 3: "(1700000000000::int) \<noteq> 0" by simp
  have 4: "1700003600000 - 1700000000000 < (24 * 60 * 60 * 1000 :: int)" by simp
  from verifyRedemption_rate_limited [OF 1 2 3 4, of example_runtime "''0b''" example_campaign] 2
  show ?thesis
    by (simp add: s after_first_call_kept example_request_def)
qed

text \<open>
  The claim C4 as it is written fails when the second call, one hour after the first,
  reuses the session identifier: the replay check answers, with the score 100 and one
  flag.
\<close>

theorem rate_limit_same_session_counterexample:
  "success (fst first_call) \<and>
   recentRedemptions (snd first_call) ''u1-c_1'' = Some 1700000000000 \<and>
   1700003600000 - 1700000000000 < (24 * 60 * 60 * 1000 :: int) \<and>
   riskScore (fst (verifyRedemption example_runtime 1700003600000 ''0b''
     (example_request ''s1'' ''u1'' 1700003600000) example_campaign (snd first_call))) = 100 \<and>
   fraudFlags (fst (verifyRedemption example_runtime 1700003600000 ''0b''
     (example_request ''s1'' ''u1'' 1700003600000) example_campaign (snd first_call))) \<noteq> Some []"
proof -
  have "usedSessionIds after_first_call (sessionId (example_request ''s1'' ''u1'' 1700003600000)) =
        Some 1700000000000"
    by (simp add: after_first_call_def example_request_def)
  moreover have "1700003600000 - lastCleanup after_first_call < CLEANUP_INTERVAL \<or>
                 1700003600000 - 1700000000000 \<le> SESSION_TTL"
    by (simp add: SESSION_TTL_def)
  ultimately have "verifyRedemption example_runtime 1700003600000 ''0b''
      (example_request ''s1'' ''u1'' 1700003600000) example_campaign after_first_call =
    (\<lparr>success = False, redemptionId = None, totpCode = None, expiresAt = None,
      error = Some ''Session already used - possible replay attack'',
      fraudFlags = Some [\<lparr>flag_type = REPLAY_ATTACK, severity = CRITICAL,
                          message = ''Duplicate session ID detected'', flag_data = None\<rparr>],
      riskScore = 100\<rparr>, cleanupExpiredSessions 1700003600000 after_first_call)"
    by (rule vr_replay)
  with first_call_accepted show ?thesis
    by (simp add: after_first_call_def)
qed

text \<open>The four rejecting paths, and no other, end without success.\<close>

lemma verifyRedemption_rejects_iff:
  "\<not> success (fst (verifyRedemption R now rnd req campaign st)) \<longleftrightarrow>
     usedSessionIds (cleanupExpiredSessions now st) (sessionId req) \<noteq> None \<or>
     (\<exists>t. recentRedemptions (cleanupExpiredSessions now st) (userId req @ ''-'' @ campaignId req) = Some t \<and>
          t \<noteq> 0 \<and> now - t < 24 * 60 * 60 * 1000) \<or>
     (\<exists>hs. businessHours campaign = Some hs \<and> hs \<noteq> [] \<and>
           \<not> fst (isWithinBusinessHours R (clientTimestamp req) (Some hs) (timezone campaign))) \<or>
     70 \<le> snd (analyzeTelemetry R now (telemetry req) campaign (userId req))"
  by (auto simp: verifyRedemption_def Let_def case_prod_beta split: option.splits)

text \<open>
  Claim C9. A call of \<open>verifyRedemption\<close> that does not succeed (replay, rate limit,
  business hours, or a score of 70 or more) leaves the guard state as the opening sweep
  left it; the sweep only deletes, so no entry is added to either map. A call that
  succeeds writes the current time under the session identifier and under the key of
  user and campaign, and nothing else. (The key is the user, a hyphen and the campaign.)
\<close>

theorem guard_maps_written_only_on_success:
  "(let st1 = cleanupExpiredSessions now st;
        r = verifyRedemption R now rnd req campaign st
    in (if success (fst r)
        then snd r = st1\<lparr>usedSessionIds := (usedSessionIds st1)(sessionId req \<mapsto> now),
                         recentRedemptions :=
                           (recentRedemptions st1)(userId req @ ''-'' @ campaignId req \<mapsto> now)\<rparr>
        else snd r = st1) \<and>
       usedSessionIds st1 \<subseteq>\<^sub>m usedSessionIds st \<and>
       recentRedemptions st1 \<subseteq>\<^sub>m recentRedemptions st)"
  using cleanup_le [of now st]
  by (simp add: verifyRedemption_def Let_def case_prod_beta)

theorem guard_maps_witness:
  "success (fst first_call) \<and>
   usedSessionIds (snd first_call) ''s1'' = Some 1700000000000 \<and>
   recentRedemptions (snd first_call) ''u1-c_1'' = Some 1700000000000 \<and>
   \<not> success (fst (verifyRedemption example_runtime 1700003600000 ''0b''
       (example_request ''s1'' ''u2'' 1700003600000) example_campaign after_first_call)) \<and>
   snd (verifyRedemption example_runtime 1700003600000 ''0b''
       (example_request ''s1'' ''u2'' 1700003600000) example_campaign after_first_call) =
     after_first_call\<lparr>lastCleanup := 1700003600000\<rparr>"
proof -
  let ?req2 = "example_request ''s1'' ''u2'' 1700003600000"
  let ?second = "verifyRedemption example_runtime 1700003600000 ''0b'' ?req2 example_campaign
                   after_first_call"
  have r: "\<not> success (fst ?second)"
    by (subst vr_replay [where t = 1700000000000])
       (simp_all add: after_first_call_def example_request_def SESSION_TTL_def)
  from guard_maps_written_only_on_success
         [of 1700003600000 after_first_call example_runtime "''0b''" ?req2 example_campaign] r
  have "snd ?second = after_first_call\<lparr>lastCleanup := 1700003600000\<rparr>"
    by (simp add: Let_def after_first_call_kept)
  moreover have "usedSessionIds (snd first_call) ''s1'' = Some 1700000000000"
    "recentRedemptions (snd first_call) ''u1-c_1'' = Some 1700000000000"
    using first_call_accepted by (simp_all add: after_first_call_def)
  ultimately show ?thesis
    using r first_call_accepted by simp
qed

section \<open>Properties of the one-time codes\<close>

lemma digit_char_decimal: "0 \<le> d \<Longrightarrow> d < 10 \<Longrightarrow> digit_char d \<in> set ''0123456789''"
proof -
  assume "0 \<le> d" "d < 10"
  then have "d = 0 \<or> d = 1 \<or> d = 2 \<or> d = 3 \<or> d = 4 \<or> d = 5 \<or> d = 6 \<or> d = 7 \<or> d = 8 \<or> d = 9"
    by arith
  then show ?thesis
    by (auto simp: digit_char_def eval_nat_numeral)
qed

lemma toString_digits_decimal:
  "0 \<le> n \<Longrightarrow> set (toString_digits n) \<subseteq> set ''0123456789''"
proof (induction n rule: toString_digits.induct)
  case (1 n)
  show ?case
  proof (cases "n < 10")
    case True
    with "1.prems" digit_char_decimal [of n] show ?thesis
      by (subst toString_digits.simps) simp
  next
    case False
    have "set (toString_digits (n div 10)) \<subseteq> set ''0123456789''"
      using False "1.prems" by (intro "1.IH") auto
    moreover have "digit_char (n mod 10) \<in> set ''0123456789''"
      by (rule digit_char_decimal) auto
    ultimately show ?thesis
      using False by (subst toString_digits.simps) simp
  qed
qed

lemma toString_digits_length:
  "0 \<le> n \<Longrightarrow> n < 10 ^ k \<Longrightarrow> 0 < k \<Longrightarrow> length (toString_digits n) \<le> k"
proof (induction k arbitrary: n)
  case 0
  then show ?case by simp
next
  case (Suc k)
  show ?case
  proof (cases "n < 10")
    case True
    then show ?thesis
      by (subst toString_digits.simps) simp
  next
    case False
    with Suc.prems have k: "0 < k"
      by (cases k) auto
    have "n div 10 < 10 ^ k"
      using Suc.prems by simp
    with k Suc.prems have "length (toString_digits (n div 10)) \<le> k"
      by (intro Suc.IH) auto
    then show ?thesis
      using False by (subst toString_digits.simps) simp
  qed
qed

lemma padded_code:
  assumes "0 \<le> n"
  shows "length (padStart 6 (CHR ''0'') (toString_int (n mod 1000000))) = 6 \<and>
         set (padStart 6 (CHR ''0'') (toString_int (n mod 1000000))) \<subseteq> set ''0123456789''"
proof -
  let ?m = "n mod 1000000"
  have m: "0 \<le> ?m" "?m < 10 ^ 6" by simp_all
  have s: "toString_int ?m = toString_digits ?m"
    using m by (simp add: toString_int_def)
  have "length (toString_digits ?m) \<le> 6"
    using m by (intro toString_digits_length) auto
  moreover have "set (toString_digits ?m) \<subseteq> set ''0123456789''"
    using m by (intro toString_digits_decimal)
  ultimately show ?thesis
    unfolding s padStart_def by auto
qed

lemma digest_hex_nibbles: "digest_hex w = map digit_char (nibbles w)"
  by (simp add: digest_hex_def nibbles_def)

lemma nibbles_range: "d \<in> set (nibbles w) \<Longrightarrow> 0 \<le> d \<and> d < 16"
proof -
  have "uint (x AND 15) < 16" for x :: "256 word"
  proof -
    have "x AND 15 \<le> 15" by (rule word_and_le1)
    then have "uint (x AND 15) \<le> uint (15 :: 256 word)"
      by (simp add: word_le_def)
    then show ?thesis by simp
  qed
  moreover assume "d \<in> set (nibbles w)"
  ultimately show ?thesis
    by (auto simp: nibbles_def)
qed

lemma length_nibbles: "length (nibbles w) = 64"
  by (simp add: nibbles_def)

lemma hex_value_digit_char: "0 \<le> d \<Longrightarrow> d < 16 \<Longrightarrow> hex_value (digit_char d) = Some d"
proof -
  assume "0 \<le> d" "d < 16"
  then have "d = 0 \<or> d = 1 \<or> d = 2 \<or> d = 3 \<or> d = 4 \<or> d = 5 \<or> d = 6 \<or> d = 7 \<or> d = 8 \<or> d = 9 \<or>
             d = 10 \<or> d = 11 \<or> d = 12 \<or> d = 13 \<or> d = 14 \<or> d = 15"
    by arith
  then show ?thesis
    by (auto simp: digit_char_def hex_value_def eval_nat_numeral)
qed

lemma parse_hex_digits:
  assumes "\<And>d. d \<in> set ds \<Longrightarrow> 0 \<le> d \<and> d < 16"
    and "ds \<noteq> [] \<or> acc \<noteq> None"
    and "\<And>a. acc = Some a \<Longrightarrow> 0 \<le> a"
  shows "\<exists>n. parse_hex acc (map digit_char ds) = Some n \<and> 0 \<le> n"
  using assms
proof (induction ds arbitrary: acc)
  case Nil
  then show ?case by auto
next
  case (Cons d ds)
  have d: "0 \<le> d" "d < 16"
    using Cons.prems(1) [of d] by simp_all
  let ?acc = "Some (16 * (case acc of None \<Rightarrow> 0 | Some a \<Rightarrow> a) + d)"
  have "\<exists>n. parse_hex ?acc (map digit_char ds) = Some n \<and> 0 \<le> n"
  proof (rule Cons.IH)
    show "0 \<le> x \<and> x < 16" if "x \<in> set ds" for x
      using Cons.prems(1) [of x] that by simp
    show "ds \<noteq> [] \<or> ?acc \<noteq> None" by simp
    show "0 \<le> a" if "?acc = Some a" for a
      using that d Cons.prems(3) by (cases acc) auto
  qed
  then show ?case
    using d by (simp add: hex_value_digit_char)
qed

lemma drop_last: "xs \<noteq> [] \<Longrightarrow> drop (length xs - Suc 0) xs = [last xs]"
proof -
  assume "xs \<noteq> []"
  then have "xs = butlast xs @ [last xs]" by simp
  then have "drop (length (butlast xs)) xs = [last xs]"
    by (metis append_eq_conv_conj)
  then show ?thesis by simp
qed

text \<open>Whatever the HMAC returns, the code has six characters, all decimal digits.\<close>

lemma generateTOTP_format:
  "length (generateTOTP R now secret ts) = 6 \<and>
   set (generateTOTP R now secret ts) \<subseteq> set ''0123456789''"
proof -
  define time where "time = (case ts of None \<Rightarrow> now | Some t \<Rightarrow> if t = 0 then now else t)"
  define w where "w = hmac_sha256 R (TOTP_SECRET R) (secret @ ''-'' @ toString_int (time div TOTP_WINDOW))"
  let ?ns = "nibbles w"
  have ne: "?ns \<noteq> []"
    using length_nibbles [of w] by auto
  have last: "slice_last (digest_hex w) = [digit_char (last ?ns)]"
    using ne by (simp add: slice_last_def digest_hex_nibbles drop_map drop_last)
  have lr: "0 \<le> last ?ns \<and> last ?ns < 16"
    using ne by (intro nibbles_range [of _ w]) simp
  have off: "parseInt16 (slice_last (digest_hex w)) = Some (last ?ns)"
    using lr by (simp add: last parseInt16_def hex_value_digit_char)
  let ?part = "slice_str (nat (last ?ns * 2)) (nat (last ?ns * 2 + 8)) (digest_hex w)"
  have part: "?part = map digit_char (take 8 (drop (nat (last ?ns * 2)) ?ns))"
    using lr by (simp add: slice_str_def digest_hex_nibbles take_map drop_map nat_add_distrib)
  have "nat (last ?ns * 2) \<le> 56"
    using lr by linarith
  then have "length (take 8 (drop (nat (last ?ns * 2)) ?ns)) = 8"
    by (simp add: length_nibbles)
  then have ne': "take 8 (drop (nat (last ?ns * 2)) ?ns) \<noteq> []"
    by auto
  have "\<exists>n. parse_hex None (map digit_char (take 8 (drop (nat (last ?ns * 2)) ?ns))) = Some n \<and> 0 \<le> n"
  proof (rule parse_hex_digits)
    show "0 \<le> d \<and> d < 16" if "d \<in> set (take 8 (drop (nat (last ?ns * 2)) ?ns))" for d
      using that by (intro nibbles_range [of _ w]) (auto dest: in_set_takeD in_set_dropD)
    show "take 8 (drop (nat (last ?ns * 2)) ?ns) \<noteq> [] \<or> (None :: int option) \<noteq> None"
      using ne' by simp
  qed simp
  then obtain n where n: "parseInt16 ?part = Some n" "0 \<le> n"
    by (auto simp: part parseInt16_def)
  have "generateTOTP R now secret ts = padStart 6 (CHR ''0'') (toString_int (n mod 1000000))"
    using off n unfolding w_def time_def by (simp add: generateTOTP_def Let_def)
  with padded_code [OF n(2)] show ?thesis by simp
qed

text \<open>
  With window 1 the loop of \<open>verifyTOTP\<close> tries the three timestamps \<open>now - 30000\<close>,
  \<open>now\<close> and \<open>now + 30000\<close>, and accepts exactly what \<open>generateTOTP\<close> returns for one
  of them.
\<close>

lemma verifyTOTP_window_iff:
  "verifyTOTP R now code secret 1 \<longleftrightarrow>
     code = generateTOTP R now secret (Some (now - 30000)) \<or>
     code = generateTOTP R now secret (Some now) \<or>
     code = generateTOTP R now secret (Some (now + 30000))"
proof -
  have 2: "verifyTOTP_loop R now code secret 1 2 = False"
    by (subst verifyTOTP_loop.simps) simp
  have 1: "verifyTOTP_loop R now code secret 1 1 \<longleftrightarrow>
           code = generateTOTP R now secret (Some (now + 30000))"
    by (subst verifyTOTP_loop.simps) (auto simp: TOTP_WINDOW_def 2)
  have 0: "verifyTOTP_loop R now code secret 1 0 \<longleftrightarrow>
           code = generateTOTP R now secret (Some now) \<or>
           code = generateTOTP R now secret (Some (now + 30000))"
    by (subst verifyTOTP_loop.simps) (auto simp: TOTP_WINDOW_def 1)
  have "verifyTOTP_loop R now code secret 1 (- 1) \<longleftrightarrow>
           code = generateTOTP R now secret (Some (now - 30000)) \<or>
           code = generateTOTP R now secret (Some now) \<or>
           code = generateTOTP R now secret (Some (now + 30000))"
    by (subst verifyTOTP_loop.simps) (auto simp: TOTP_WINDOW_def 0)
  then show ?thesis
    by (simp add: verifyTOTP_def)
qed

lemma generateTOTP_clock_independent:
  "t \<noteq> 0 \<Longrightarrow> generateTOTP R now1 secret (Some t) = generateTOTP R now2 secret (Some t)"
  by (simp add: generateTOTP_def)

lemma generateTOTP_current:
  "generateTOTP R now secret None = generateTOTP R now secret (Some now)"
  by (simp add: generateTOTP_def)

lemma verifyTOTP_accepts_current:
  "verifyTOTP R now (generateTOTP R now secret (Some now)) secret 1 \<and>
   verifyTOTP R now (generateTOTP R now secret None) secret 1"
  by (simp add: verifyTOTP_window_iff generateTOTP_current)

lemma generateTOTP_same_counter:
  "t1 \<noteq> 0 \<Longrightarrow> t2 \<noteq> 0 \<Longrightarrow> t1 div 30000 = t2 div 30000 \<Longrightarrow>
   generateTOTP R now1 secret (Some t1) = generateTOTP R now2 secret (Some t2)"
  by (simp add: generateTOTP_def TOTP_WINDOW_def)

text \<open>
  Claim C3 at the timestamp 0. \<open>timestamp || Date.now()\<close> takes the timestamp 0 for
  a missing one, so \<open>generateTOTP(secret, 0)\<close> is the code of the current window, not
  of the window of time 0: with the stand-in HMAC of the examples it is \<open>000003\<close> when
  the clock reads 0 and \<open>000004\<close> when it reads 300000. At every other timestamp the
  code is a function of the secret and the timestamp (\<open>generateTOTP_clock_independent\<close>);
  it always has six decimal digits (\<open>generateTOTP_format\<close>); and \<open>verifyTOTP\<close> with
  window 1 accepts exactly the codes \<open>generateTOTP\<close> returns for the three timestamps
  (\<open>verifyTOTP_window_iff\<close>), the code of the current time among them
  (\<open>verifyTOTP_accepts_current\<close>).
\<close>

theorem generateTOTP_zero_timestamp_reads_clock:
  "generateTOTP R now secret (Some 0) = generateTOTP R now secret None \<and>
   generateTOTP example_runtime 0 ''s'' (Some 0) = ''000003'' \<and>
   generateTOTP example_runtime 300000 ''s'' (Some 0) = ''000004''"
proof -
  have "generateTOTP R now secret (Some 0) = generateTOTP R now secret None"
    by (simp add: generateTOTP_def)
  moreover have "generateTOTP example_runtime 0 ''s'' (Some 0) = ''000003''"
    by code_simp
  moreover have "generateTOTP example_runtime 300000 ''s'' (Some 0) = ''000004''"
    by code_simp
  ultimately show ?thesis by blast
qed

section \<open>Properties of the redemption tokens\<close>

lemma verifyQRPayload_try_shapes:
  "verifyQRPayload_try R now s = Inr r \<Longrightarrow>
     r = qr_expired \<or> r = qr_invalid_code \<or>
     (\<exists>rid uid cid. r = \<lparr>valid = True, data = Some (rid, uid, cid), qr_error = None\<rparr>)"
  by (auto simp: verifyQRPayload_try_def qr_expired_def qr_invalid_code_def Let_def
      split: option.splits sum.splits if_splits prod.splits)

text \<open>
  Claim C6. \<open>verifyQRPayload\<close> answers a string that does not parse, and every exception
  raised while it works, with the malformed-payload failure; a payload whose \<open>exp\<close> is a
  number the clock has passed with the expired failure; a payload of three identifiers,
  a code and an \<open>exp\<close> not yet passed with the three identifiers when \<open>verifyTOTP\<close>
  accepts the code for the secret \<open>rid-uid-cid\<close>, and with the invalid-code failure when it
  does not. It always returns one of these four shapes: nothing is thrown to the caller.
\<close>

theorem verifyQRPayload_outcomes:
  "(JSON_parse_base64 R s = None \<longrightarrow> verifyQRPayload R now s = qr_malformed) \<and>
   (\<forall>e. verifyQRPayload_try R now s = Inl e \<longrightarrow> verifyQRPayload R now s = qr_malformed) \<and>
   (\<forall>kvs x. JSON_parse_base64 R s = Some (JObj kvs) \<and> map_of kvs ''exp'' = Some (JNum x) \<and>
       of_int now > x \<longrightarrow> verifyQRPayload R now s = qr_expired) \<and>
   (\<forall>kvs x rid uid cid code.
       JSON_parse_base64 R s = Some (JObj kvs) \<and> map_of kvs ''exp'' = Some (JNum x) \<and>
       \<not> of_int now > x \<and>
       map_of kvs ''rid'' = Some (JStr rid) \<and> map_of kvs ''uid'' = Some (JStr uid) \<and>
       map_of kvs ''cid'' = Some (JStr cid) \<and> map_of kvs ''code'' = Some (JStr code) \<longrightarrow>
       verifyQRPayload R now s =
         (if verifyTOTP R now code (rid @ ''-'' @ uid @ ''-'' @ cid) 1
          then \<lparr>valid = True, data = Some (Some (JStr rid), Some (JStr uid), Some (JStr cid)),
                qr_error = None\<rparr>
          else qr_invalid_code)) \<and>
   (verifyQRPayload R now s = qr_expired \<or> verifyQRPayload R now s = qr_invalid_code \<or>
    verifyQRPayload R now s = qr_malformed \<or>
    (\<exists>rid uid cid. verifyQRPayload R now s =
       \<lparr>valid = True, data = Some (rid, uid, cid), qr_error = None\<rparr>))"
proof -
  have 1: "JSON_parse_base64 R s = None \<longrightarrow> verifyQRPayload R now s = qr_malformed"
    by (simp add: verifyQRPayload_def verifyQRPayload_try_def qr_malformed_def)
  have 2: "\<forall>e. verifyQRPayload_try R now s = Inl e \<longrightarrow> verifyQRPayload R now s = qr_malformed"
    by (simp add: verifyQRPayload_def qr_malformed_def)
  have 3: "\<forall>kvs x. JSON_parse_base64 R s = Some (JObj kvs) \<and> map_of kvs ''exp'' = Some (JNum x) \<and>
       of_int now > x \<longrightarrow> verifyQRPayload R now s = qr_expired"
    by (simp add: verifyQRPayload_def verifyQRPayload_try_def qr_expired_def get_prop_def ToNumber_def)
  have 4: "\<forall>kvs x rid uid cid code.
       JSON_parse_base64 R s = Some (JObj kvs) \<and> map_of kvs ''exp'' = Some (JNum x) \<and>
       \<not> of_int now > x \<and>
       map_of kvs ''rid'' = Some (JStr rid) \<and> map_of kvs ''uid'' = Some (JStr uid) \<and>
       map_of kvs ''cid'' = Some (JStr cid) \<and> map_of kvs ''code'' = Some (JStr code) \<longrightarrow>
       verifyQRPayload R now s =
         (if verifyTOTP R now code (rid @ ''-'' @ uid @ ''-'' @ cid) 1
          then \<lparr>valid = True, data = Some (Some (JStr rid), Some (JStr uid), Some (JStr cid)),
                qr_error = None\<rparr>
          else qr_invalid_code)"
    by (simp add: verifyQRPayload_def verifyQRPayload_try_def qr_invalid_code_def get_prop_def
        ToNumber_def ToString_def Let_def)
  have 5: "verifyQRPayload R now s = qr_expired \<or> verifyQRPayload R now s = qr_invalid_code \<or>
    verifyQRPayload R now s = qr_malformed \<or>
    (\<exists>rid uid cid. verifyQRPayload R now s =
       \<lparr>valid = True, data = Some (rid, uid, cid), qr_error = None\<rparr>)"
  proof (cases "verifyQRPayload_try R now s")
    case (Inl e)
    then show ?thesis
      by (simp add: verifyQRPayload_def qr_malformed_def)
  next
    case (Inr r)
    with verifyQRPayload_try_shapes [OF Inr] show ?thesis
      by (auto simp: verifyQRPayload_def)
  qed
  from 1 2 3 4 5 show ?thesis by blast
qed

lemma example_parse:
  "JSON_parse_base64 example_runtime example_token = Some example_payload"
  "JSON_parse_base64 example_runtime tampered_token = Some tampered_payload"
  "JSON_parse_base64 example_runtime ''not a token'' = None"
  by (simp_all add: example_runtime_def example_token_def tampered_token_def)

lemma example_code:
  "generateTOTP example_runtime 1700000000000 ''r1-u1-c1'' (Some 1700000000000) = ''000017''"
  by code_simp

lemma tampered_code_rejected: "\<not> verifyTOTP R now ''BADBAD'' secret 1"
proof -
  have "''BADBAD'' \<noteq> generateTOTP R now secret ts" for ts
  proof
    assume "''BADBAD'' = generateTOTP R now secret ts"
    with generateTOTP_format [of R now secret ts]
    have "set ''BADBAD'' \<subseteq> set ''0123456789''" by simp
    then show False by simp
  qed
  then show ?thesis
    by (simp add: verifyTOTP_window_iff)
qed

theorem verifyQRPayload_outcomes_witness:
  "verifyQRPayload example_runtime 1700000000000 ''not a token'' = qr_malformed \<and>
   verifyQRPayload example_runtime 1700000040000 example_token = qr_expired \<and>
   verifyQRPayload example_runtime 1700000000000 tampered_token = qr_invalid_code \<and>
   verifyQRPayload example_runtime 1700000000000 example_token =
     \<lparr>valid = True, data = Some (Some (JStr ''r1''), Some (JStr ''u1''), Some (JStr ''c1'')),
      qr_error = None\<rparr>"
proof -
  have v: "verifyTOTP example_runtime 1700000000000 ''000017'' (''r1'' @ ''-'' @ ''u1'' @ ''-'' @ ''c1'') 1"
    using example_code by (simp add: verifyTOTP_window_iff)
  have "verifyQRPayload example_runtime 1700000000000 ''not a token'' = qr_malformed"
    using verifyQRPayload_outcomes [of example_runtime "''not a token''" 1700000000000]
    by (simp add: example_parse)
  moreover have "verifyQRPayload example_runtime 1700000040000 example_token = qr_expired"
    using verifyQRPayload_outcomes [of example_runtime example_token 1700000040000]
    by (simp add: example_parse example_payload_def)
  moreover have "verifyQRPayload example_runtime 1700000000000 tampered_token = qr_invalid_code"
    using verifyQRPayload_outcomes [of example_runtime tampered_token 1700000000000]
      tampered_code_rejected [of example_runtime 1700000000000 "''r1'' @ ''-'' @ ''u1'' @ ''-'' @ ''c1''"]
    by (simp add: example_parse tampered_payload_def)
  moreover have "verifyQRPayload example_runtime 1700000000000 example_token =
     \<lparr>valid = True, data = Some (Some (JStr ''r1''), Some (JStr ''u1''), Some (JStr ''c1'')),
      qr_error = None\<rparr>"
    using verifyQRPayload_outcomes [of example_runtime example_token 1700000000000] v
    by (simp add: example_parse example_payload_def)
  ultimately show ?thesis by blast
qed

text \<open>
  A token that \<open>generateSecureQRPayload\<close> issued is accepted up to its expiry, 30 seconds
  later, on a runtime whose parser reads back what its printer wrote, once the clock is
  past the first window (no timestamp the check tries is then 0).
\<close>

lemma issued_token_accepted:
  assumes rt: "\<And>j. JSON_parse_base64 R (base64_JSON_stringify R j) = Some j"
    and "30000 < now0" and "now0 \<le> now" and "now \<le> now0 + 30000"
  shows "verifyQRPayload R now (fst (generateSecureQRPayload R now0 rid uid cid)) =
    \<lparr>valid = True, data = Some (Some (JStr rid), Some (JStr uid), Some (JStr cid)),
     qr_error = None\<rparr>"
proof -
  let ?secret = "rid @ ''-'' @ uid @ ''-'' @ cid"
  let ?code = "generateTOTP R now0 ?secret None"
  have c0: "?code = generateTOTP R now0 ?secret (Some now0)"
    by (rule generateTOTP_current)
  have cnt: "now div 30000 = now0 div 30000 \<or> (now - 30000) div 30000 = now0 div 30000"
    using assms(3,4) by auto
  have nz: "now \<noteq> 0" "now - 30000 \<noteq> 0" "now0 \<noteq> 0"
    using assms(2,3) by auto
  have "?code = generateTOTP R now ?secret (Some now) \<or>
        ?code = generateTOTP R now ?secret (Some (now - 30000))"
  proof (rule disjE [OF cnt])
    assume "now div 30000 = now0 div 30000"
    then have "?code = generateTOTP R now ?secret (Some now)"
      unfolding c0 using nz by (intro generateTOTP_same_counter) auto
    then show ?thesis ..
  next
    assume "(now - 30000) div 30000 = now0 div 30000"
    then have "?code = generateTOTP R now ?secret (Some (now - 30000))"
      unfolding c0 using nz by (intro generateTOTP_same_counter) auto
    then show ?thesis ..
  qed
  then have v: "verifyTOTP R now ?code ?secret 1"
    by (auto simp: verifyTOTP_window_iff)
  show ?thesis
    using v assms(4)
    by (simp add: generateSecureQRPayload_def Let_def rt verifyQRPayload_def verifyQRPayload_try_def
        get_prop_def ToNumber_def ToString_def TOTP_WINDOW_def)
qed

end
